theory Spec2Isabelle
  imports Complex_Main
begin

section \<open>Python values and exceptions\<close>

text \<open>
  The exceptions that the modelled part of \<^verbatim>\<open>webcam/camera.py\<close> can raise.
  \<open>DeviceError\<close> stands for whatever the capture device (PiCamera) raises.
\<close>

datatype py_error =
    ZeroDivisionError
  | OverflowError
  | ValueError
  | IndexError
  | TypeError
  | NameError
  | AttributeError
  | RecursionError
  | FileNotFoundError
  | DeviceError

text \<open>
  Python's \<^verbatim>\<open>int(x)\<close> on a finite float truncates toward zero. Luminances are
  Python floats; they are modelled by the real numbers they denote.
\<close>

definition py_int :: "real \<Rightarrow> int" where
  "py_int x = (if 0 \<le> x then \<lfloor>x\<rfloor> else \<lceil>x\<rceil>)"

section \<open>Luminance model\<close>

definition MINIMUM_DAYLIGHT_LUMINANCE :: real where
  "MINIMUM_DAYLIGHT_LUMINANCE = 60"

definition MIN_SHUTTER_SPEED :: int where
  "MIN_SHUTTER_SPEED = py_int (3 / 100 * 10 ^ 6)"

definition MAX_SHUTTER_SPEED :: int where
  "MAX_SHUTTER_SPEED = py_int (3 * 10 ^ 6)"

definition TARGET_LUMINOSITY_MARGIN :: real where
  "TARGET_LUMINOSITY_MARGIN = 1"

subsection \<open>Float arithmetic\<close>

text \<open>
  A Python float is an IEEE 754 binary64 number: 52 fraction bits, normal exponents
  from \<open>- 1022\<close> to 1023. A finite float is modelled by the real number it denotes.
  \<open>round_to_double\<close> rounds a real number to the nearest such number, ties to the
  even significand: \<open>ulp x\<close> is the spacing of the floats around \<open>x\<close>, which is
  constant within a binade (and, for the subnormal numbers, equal to that of the
  lowest binade). \<open>float_result\<close> is the float that an arithmetic operation delivers
  for the exact result \<open>x\<close>; \<open>None\<close> stands for an infinity, which is what a result
  of magnitude \<open>2 ^ 1024\<close> or more after rounding becomes.
\<close>

definition min_exponent :: int where
  "min_exponent = - 1022"

definition max_exponent :: int where
  "max_exponent = 1023"

definition fraction_bits :: int where
  "fraction_bits = 52"

definition binade :: "real \<Rightarrow> int" where
  "binade x = max \<lfloor>log 2 \<bar>x\<bar>\<rfloor> min_exponent"

definition ulp :: "real \<Rightarrow> real" where
  "ulp x = 2 powi (binade x - fraction_bits)"

definition round_half_even :: "real \<Rightarrow> int" where
  "round_half_even r =
     (let f = \<lfloor>r\<rfloor> in
      if r - of_int f < 1 / 2 then f
      else if 1 / 2 < r - of_int f then f + 1
      else if even f then f else f + 1)"

definition round_to_double :: "real \<Rightarrow> real" where
  "round_to_double x =
     (if x = 0 then 0 else of_int (round_half_even (x / ulp x)) * ulp x)"

definition float_result :: "real \<Rightarrow> real option" where
  "float_result x =
     (let r = round_to_double x
      in if \<bar>r\<bar> < 2 powi (max_exponent + 1) then Some r else None)"

text \<open>
  \<^verbatim>\<open>x / y\<close> on floats raises \<open>ZeroDivisionError\<close> for a zero divisor and otherwise
  delivers the rounded quotient, an infinity on overflow. \<^verbatim>\<open>x + y\<close> delivers the
  rounded sum; an infinity plus a finite float is that infinity. \<^verbatim>\<open>int(x)\<close>
  truncates a finite float toward zero and raises \<open>OverflowError\<close> for an infinity.
\<close>

definition float_truediv :: "real \<Rightarrow> real \<Rightarrow> py_error + real option" where
  "float_truediv x y =
     (if y = 0 then Inl ZeroDivisionError else Inr (float_result (x / y)))"

definition float_add :: "real option \<Rightarrow> real \<Rightarrow> real option" where
  "float_add x y = (case x of None \<Rightarrow> None | Some v \<Rightarrow> float_result (v + y))"

definition int_of_float :: "real option \<Rightarrow> py_error + int" where
  "int_of_float x = (case x of None \<Rightarrow> Inl OverflowError | Some v \<Rightarrow> Inr (py_int v))"

subsection \<open>The module's functions\<close>

text \<open>
  \<^verbatim>\<open>lambda lum, a, b: int(((a/lum) + b)) if lum < MINIMUM_DAYLIGHT_LUMINANCE else None\<close>.
  \<open>lum\<close> is a float; \<open>a\<close> and \<open>b\<close> are ints, which the division and the addition
  convert to float. The program passes 600000 and 60000; an int of magnitude at most
  \<open>2 ^ 53\<close> converts without rounding, and the conversion of larger ints is not
  modelled.
\<close>

definition SHUTTER_SPEED_FROM_LUMINANCE :: "real \<Rightarrow> int \<Rightarrow> int \<Rightarrow> py_error + int option" where
  "SHUTTER_SPEED_FROM_LUMINANCE lum a b =
     (if lum < MINIMUM_DAYLIGHT_LUMINANCE
      then (case float_truediv (of_int a) lum of
              Inl e \<Rightarrow> Inl e
            | Inr ratio \<Rightarrow>
                (case int_of_float (float_add ratio (of_int b)) of
                   Inl e \<Rightarrow> Inl e
                 | Inr n \<Rightarrow> Inr (Some n)))
      else Inr None)"

text \<open>\<^verbatim>\<open>lambda r,g,b: math.sqrt(0.241*(r**2) + 0.691*(g**2) + 0.068*(b**2))\<close>\<close>

definition LUMINANCE_FROM_RGB :: "real \<Rightarrow> real \<Rightarrow> real \<Rightarrow> real" where
  "LUMINANCE_FROM_RGB r g b =
     sqrt (241 / 1000 * (r ^ 2) + 691 / 1000 * (g ^ 2) + 68 / 1000 * (b ^ 2))"

text \<open>
  \<^verbatim>\<open>lambda lum: lum if lum > MINIMUM_DAYLIGHT_LUMINANCE else lum+30 if lum < 30 else (lum/2) + 45\<close>
\<close>

definition TARGET_LUMINANCE :: "real \<Rightarrow> real" where
  "TARGET_LUMINANCE lum =
     (if lum > MINIMUM_DAYLIGHT_LUMINANCE then lum
      else if lum < 30 then lum + 30
      else (lum / 2) + 45)"

section \<open>Images, module state and the capture device\<close>

text \<open>
  A PIL image, as far as the program looks at it: its size and the per-band means
  that \<^verbatim>\<open>ImageStat.Stat(photo).mean\<close> returns for an RGB photo.
\<close>

record image =
  img_width :: nat
  img_height :: nat
  img_mean :: "real \<times> real \<times> real"

text \<open>\<^verbatim>\<open>lambda photo: LUMINANCE_FROM_RGB(*ImageStat.Stat(photo).mean)\<close>\<close>

definition LUMINANCE_FROM_PICTURE :: "image \<Rightarrow> real" where
  "LUMINANCE_FROM_PICTURE photo =
     (case img_mean photo of (r, g, b) \<Rightarrow> LUMINANCE_FROM_RGB r g b)"

text \<open>
  The module-level names \<^verbatim>\<open>LUM_SPEED_PARAM_A\<close> and \<^verbatim>\<open>LUM_SPEED_PARAM_B\<close>.
  They are the only module globals that the source assigns to after import time, so the
  module namespace is threaded through the model explicitly.
\<close>

record module_globals =
  LUM_SPEED_PARAM_A :: int
  LUM_SPEED_PARAM_B :: int

definition module_at_import :: module_globals where
  "module_at_import = \<lparr>LUM_SPEED_PARAM_A = 600000, LUM_SPEED_PARAM_B = 60000\<rparr>"

text \<open>
  \<^verbatim>\<open>lambda photo: SHUTTER_SPEED_FROM_LUMINANCE(LUMINANCE_FROM_PICTURE(photo),
  LUM_SPEED_PARAM_A, LUM_SPEED_PARAM_B)\<close>: the two names are looked up in the module
  namespace when the lambda runs.
\<close>

definition SHUTTER_SPEED_FROM_PICTURE :: "module_globals \<Rightarrow> image \<Rightarrow> py_error + int option" where
  "SHUTTER_SPEED_FROM_PICTURE g photo =
     SHUTTER_SPEED_FROM_LUMINANCE (LUMINANCE_FROM_PICTURE photo)
       (LUM_SPEED_PARAM_A g) (LUM_SPEED_PARAM_B g)"

text \<open>
  The capture device. Its behaviour is arbitrary: the \<open>n\<close>-th capture of a run
  (counted from 0), taken with the given exposure setting (\<open>None\<close> is automatic
  exposure, \<open>Some s\<close> a shutter speed of \<open>s\<close> microseconds), either raises or
  writes a photo.
\<close>

type_synonym device = "nat \<Rightarrow> int option \<Rightarrow> py_error + image"

text \<open>
  The part of a \<^verbatim>\<open>Camera\<close> object and of the file system that shooting reads
  and writes: the \<^verbatim>\<open>calibrate\<close> attribute, the exposure setting of every capture
  attempted so far, the photo stored at \<^verbatim>\<open>temp_photo_path\<close> and the rows
  appended to \<^verbatim>\<open>CALIBRATION_CSV\<close>.
\<close>

record camera =
  calibrate :: bool
  captures :: "int option list"
  temp_photo :: "image option"
  calibration_csv :: "(real \<times> real \<times> int) list"

text \<open>
  \<^verbatim>\<open>Camera._shoot_picture\<close>. \<^verbatim>\<open>if shutter_speed:\<close> is false for \<open>None\<close> and
  for 0. Resolution clamping, flips and rotation do not influence what follows and
  are left to the device.
\<close>

definition shoot_picture_inner :: "device \<Rightarrow> int option \<Rightarrow> camera \<Rightarrow> py_error option \<times> camera" where
  "shoot_picture_inner dev shutter_speed cam =
     (let setting = (case shutter_speed of
                       None \<Rightarrow> None
                     | Some s \<Rightarrow> if s \<noteq> 0 then Some s else None);
          cam1 = cam\<lparr>captures := captures cam @ [setting]\<rparr>
      in case dev (length (captures cam)) setting of
           Inl e \<Rightarrow> (Some e, cam1)
         | Inr photo \<Rightarrow> (None, cam1\<lparr>temp_photo := Some photo\<rparr>))"

text \<open>
  The \<^verbatim>\<open>while True\<close> loop of the calibration branch of
  \<^verbatim>\<open>Camera.shoot_picture\<close>. The result carries the loop's \<open>i\<close> and
  \<open>shutter_speed\<close> when it is left, by \<^verbatim>\<open>break\<close> or by an exception.
\<close>

function calibration_loop ::
  "device \<Rightarrow> real \<Rightarrow> real \<Rightarrow> nat \<Rightarrow> int \<Rightarrow> int \<Rightarrow> camera
     \<Rightarrow> py_error option \<times> nat \<times> int \<times> camera" where
  "calibration_loop dev luminance target_luminance i min_speed max_speed cam =
     (let shutter_speed = py_int (of_int (min_speed + max_speed) / 2) in
      case shoot_picture_inner dev (Some shutter_speed) cam of
        (Some e, cam1) \<Rightarrow> (Some e, i + 1, shutter_speed, cam1)
      | (None, cam1) \<Rightarrow>
          (case temp_photo cam1 of
             None \<Rightarrow> (Some FileNotFoundError, i + 1, shutter_speed, cam1)
           | Some photo \<Rightarrow>
               let new_luminance = LUMINANCE_FROM_PICTURE photo in
               if new_luminance \<ge> target_luminance - TARGET_LUMINOSITY_MARGIN \<and>
                  new_luminance \<le> target_luminance + TARGET_LUMINOSITY_MARGIN
               then (None, i + 1, shutter_speed,
                     cam1\<lparr>calibration_csv := calibration_csv cam1
                             @ [(luminance, new_luminance, shutter_speed)]\<rparr>)
               else if new_luminance < target_luminance - TARGET_LUMINOSITY_MARGIN
               then (if shutter_speed + 5 > max_speed
                     then (None, i + 1, shutter_speed, cam1)
                     else calibration_loop dev luminance target_luminance (i + 1)
                            shutter_speed max_speed cam1)
               else (if min_speed + 5 > shutter_speed
                     then (None, i + 1, shutter_speed, cam1)
                     else calibration_loop dev luminance target_luminance (i + 1)
                            min_speed shutter_speed cam1)))"
  by pat_completeness auto
termination
proof -
  have half: "2 * py_int (real_of_int n / 2) \<le> n + 1 \<and> n - 1 \<le> 2 * py_int (real_of_int n / 2)"
    for n :: int
  proof -
    have f: "\<lfloor>real_of_int n / 2\<rfloor> = n div 2"
      using floor_divide_of_int_eq [of n 2, where ?'a = real] by simp
    have c: "\<lceil>real_of_int n / 2\<rceil> = - (- n div 2)"
      using ceiling_divide_eq_div [of n 2, where ?'a = real] by simp
    show ?thesis unfolding py_int_def f c by (simp; presburger)
  qed
  show ?thesis
  proof (relation "measure (\<lambda>(dev, luminance, target_luminance, i, min_speed, max_speed, cam).
                              nat (max_speed - min_speed))", goal_cases)
    case 1
    show ?case by simp
  next
    case (2 dev luminance target_luminance i min_speed max_speed cam shutter_speed)
    with half [of "min_speed + max_speed"] show ?case by simp
  next
    case (3 dev luminance target_luminance i min_speed max_speed cam shutter_speed)
    with half [of "min_speed + max_speed"] show ?case by simp
  qed
qed

declare calibration_loop.simps [simp del]

text \<open>
  \<^verbatim>\<open>Camera.shoot_picture\<close>. The result is the exception that escaped, if any, and
  the camera as it was left. \<^verbatim>\<open>Image.open\<close> raises when there is no file at the path;
  the log line of the non-calibration branch divides \<open>shutter_speed\<close> by \<^verbatim>\<open>10**6\<close>,
  which raises \<open>TypeError\<close> for \<open>None\<close>.
\<close>

definition shoot_picture :: "module_globals \<Rightarrow> device \<Rightarrow> camera \<Rightarrow> py_error option \<times> camera" where
  "shoot_picture g dev cam =
     (case shoot_picture_inner dev None cam of
        (Some e, cam1) \<Rightarrow> (Some e, cam1)
      | (None, cam1) \<Rightarrow>
          (case temp_photo cam1 of
             None \<Rightarrow> (Some FileNotFoundError, cam1)
           | Some photo \<Rightarrow>
               let luminance = LUMINANCE_FROM_PICTURE photo in
               if luminance \<ge> MINIMUM_DAYLIGHT_LUMINANCE then (None, cam1)
               else if \<not> calibrate cam1 then
                 (case SHUTTER_SPEED_FROM_PICTURE g photo of
                    Inl e \<Rightarrow> (Some e, cam1)
                  | Inr None \<Rightarrow> (Some TypeError, cam1)
                  | Inr (Some shutter_speed) \<Rightarrow>
                      shoot_picture_inner dev (Some shutter_speed) cam1)
               else
                 (let target_luminance = TARGET_LUMINANCE luminance in
                  case calibration_loop dev luminance target_luminance 0
                         MIN_SHUTTER_SPEED MAX_SHUTTER_SPEED cam1 of
                    (err, i, shutter_speed, cam2) \<Rightarrow> (err, cam2))))"

section \<open>Camera construction: calibration flag and calibrated parameters\<close>

text \<open>Python's \<^verbatim>\<open>s.split(sep)\<close> for a one-character separator.\<close>

fun split_on :: "char \<Rightarrow> string \<Rightarrow> string list" where
  "split_on c [] = [[]]"
| "split_on c (x # xs) =
     (if x = c then [] # split_on c xs
      else (case split_on c xs of
              [] \<Rightarrow> [[x]]
            | w # ws \<Rightarrow> (x # w) # ws))"

text \<open>Python's \<^verbatim>\<open>sub in s\<close> on strings.\<close>

fun contains :: "string \<Rightarrow> string \<Rightarrow> bool" where
  "contains sub [] = (sub = [])"
| "contains sub (x # xs) = (take (length sub) (x # xs) = sub \<or> contains sub xs)"

text \<open>
  \<^verbatim>\<open>LUM_SPEED_PARAM_A, LUM_SPEED_PARAM_B = calib.readlines()[0].split(" ")\<close>:
  indexing an empty list raises \<open>IndexError\<close>, unpacking anything but two items
  raises \<open>ValueError\<close>. The two items are strings.
\<close>

definition read_calibrated_parameters :: "string list \<Rightarrow> py_error + string \<times> string" where
  "read_calibrated_parameters readlines =
     (case readlines of
        [] \<Rightarrow> Inl IndexError
      | first_line # _ \<Rightarrow>
          (case split_on CHR '' '' first_line of
             [a, b] \<Rightarrow> Inr (a, b)
           | _ \<Rightarrow> Inl ValueError))"

text \<open>
  The part of \<^verbatim>\<open>Camera.__init__\<close> that deals with calibration. Its inputs are the
  module namespace, the \<^verbatim>\<open>calibrate\<close> entry of the image settings (if present), the
  content of the \<^verbatim>\<open>CALIBRATION\<close> flag file (if it exists) and the lines of the
  \<^verbatim>\<open>CALIBRATED_PARAMS\<close> file (if it exists). It returns the new camera, the module
  namespace afterwards and the lines logged.

  The method has no \<^verbatim>\<open>global\<close> statement, so the assignment to
  \<^verbatim>\<open>LUM_SPEED_PARAM_A, LUM_SPEED_PARAM_B\<close> binds two names local to
  \<^verbatim>\<open>__init__\<close>; they are read once more, by the log line, and then dropped. The
  module namespace is returned as it was received.
\<close>

definition Camera_init ::
  "module_globals \<Rightarrow> bool option \<Rightarrow> string option \<Rightarrow> string list option
     \<Rightarrow> camera \<times> module_globals \<times> string list" where
  "Camera_init g image_calibrate calibration_flag calibrated_parameters =
     (let defaults_calibrate =
            (case calibration_flag of
               None \<Rightarrow> False
             | Some content \<Rightarrow> contains ''ON'' content);
          log1 = [''Calibration data collection is ''
                    @ (if defaults_calibrate then ''ON'' else ''OFF'')];
          log2 =
            (case calibrated_parameters of
               None \<Rightarrow> []
             | Some readlines \<Rightarrow>
                 (case read_calibrated_parameters readlines of
                    Inl e \<Rightarrow> [''ERROR! Something happened trying to read the overridden calibration parameters for the webcam. Ignoring them.'']
                  | Inr (local_A, local_B) \<Rightarrow>
                      [''Camera configuration for low light: A='' @ local_A
                         @ '', B='' @ local_B]));
          self = \<lparr>calibrate = (case image_calibrate of
                                  Some v \<Rightarrow> v
                                | None \<Rightarrow> defaults_calibrate),
                  captures = [], temp_photo = None, calibration_csv = []\<rparr>
      in (self, g, log1 @ log2))"

section \<open>Overlays\<close>

text \<open>
  The values found in the configuration (decoded JSON) and in object attributes.
  Tuples are represented by \<open>PList\<close>.
\<close>

datatype pyval =
    PNone
  | PBool bool
  | PInt int
  | PFloat real
  | PStr string
  | PList "pyval list"
  | PDict "(string \<times> pyval) list"
  | PImage image

text \<open>Python's truth value testing.\<close>

fun truthy :: "pyval \<Rightarrow> bool" where
  "truthy PNone = False"
| "truthy (PBool b) = b"
| "truthy (PInt n) = (n \<noteq> 0)"
| "truthy (PFloat x) = (x \<noteq> 0)"
| "truthy (PStr s) = (s \<noteq> [])"
| "truthy (PList xs) = (xs \<noteq> [])"
| "truthy (PDict kvs) = (kvs \<noteq> [])"
| "truthy (PImage img) = True"

text \<open>
  An \<^verbatim>\<open>Overlay\<close> object is its instance dictionary. A slot's \<^verbatim>\<open>data\<close> is a
  dictionary with string keys.
\<close>

type_synonym overlay = "string \<rightharpoonup> pyval"

text \<open>
  Attribute access \<^verbatim>\<open>self.name\<close>. An attribute missing from the instance
  dictionary goes to \<^verbatim>\<open>Overlay.__getattr__\<close>, which evaluates
  \<^verbatim>\<open>self.defaults.get(name, None)\<close>. When \<^verbatim>\<open>defaults\<close> itself is missing,
  that lookup enters \<^verbatim>\<open>__getattr__\<close> again, without end, until Python raises
  \<open>RecursionError\<close>; when it is not a dictionary, it has no \<^verbatim>\<open>get\<close>.
\<close>

definition overlay_getattr :: "overlay \<Rightarrow> string \<Rightarrow> py_error + pyval" where
  "overlay_getattr self name =
     (case self name of
        Some v \<Rightarrow> Inr v
      | None \<Rightarrow>
          (case self ''defaults'' of
             None \<Rightarrow> Inl RecursionError
           | Some (PDict defaults) \<Rightarrow>
               Inr (case map_of defaults name of Some v \<Rightarrow> v | None \<Rightarrow> PNone)
           | Some _ \<Rightarrow> Inl AttributeError))"

text \<open>
  What lies outside the program: PIL, the font and image files and the clock behind
  \<^verbatim>\<open>create_text_overlay\<close> and \<^verbatim>\<open>create_image_overlay\<close> (each returns an image,
  or \<open>None\<close> after catching its own exceptions), and whether the star import of
  \<^verbatim>\<open>webcam.constants\<close> happens to bind the name \<^verbatim>\<open>kind\<close>, which
  \<^verbatim>\<open>Overlay.__init__\<close> reads and \<^verbatim>\<open>camera.py\<close> never binds.
\<close>

record render_env =
  render_text :: "overlay \<Rightarrow> nat \<Rightarrow> nat \<Rightarrow> image option"
  render_image :: "overlay \<Rightarrow> image option"
  kind_defined :: bool

definition lower_char :: "char \<Rightarrow> char" where
  "lower_char c =
     (case map_of (zip ''ABCDEFGHIJKLMNOPQRSTUVWXYZ'' ''abcdefghijklmnopqrstuvwxyz'') c of
        Some l \<Rightarrow> l
      | None \<Rightarrow> c)"

text \<open>\<^verbatim>\<open>str.lower\<close>, on ASCII.\<close>

definition lower :: "string \<Rightarrow> string" where
  "lower s = map lower_char s"

definition overlay_defaults :: "(string \<times> pyval) list" where
  "overlay_defaults =
     [(''font_size'', PInt 25),
      (''padding_ratio'', PFloat (2 / 10)),
      (''text'', PStr ''~~~ DEFAULT TEXT ~~~''),
      (''font_color'', PList [PInt 0, PInt 0, PInt 0]),
      (''background_color'', PList [PInt 255, PInt 255, PInt 255, PInt 0]),
      (''image'', PStr ''fallback-pixel.png''),
      (''width'', PNone),
      (''heigth'', PNone),
      (''over_the_picture'', PBool False)]"

text \<open>
  \<^verbatim>\<open>Overlay.create_image_overlay\<close>: \<^verbatim>\<open>IMAGE_OVERLAYS_PATH / self.path\<close> stands
  before the first \<^verbatim>\<open>try\<close> and raises \<open>TypeError\<close> unless the path is a string.
\<close>

definition create_image_overlay :: "render_env \<Rightarrow> overlay \<Rightarrow> py_error + pyval" where
  "create_image_overlay env self =
     (case overlay_getattr self ''path'' of
        Inl e \<Rightarrow> Inl e
      | Inr (PStr path) \<Rightarrow>
          Inr (case render_image env self of None \<Rightarrow> PNone | Some img \<Rightarrow> PImage img)
      | Inr _ \<Rightarrow> Inl TypeError)"

text \<open>\<^verbatim>\<open>Overlay.create_text_overlay\<close>: the whole body is inside \<^verbatim>\<open>try\<close>.\<close>

definition create_text_overlay :: "render_env \<Rightarrow> overlay \<Rightarrow> nat \<Rightarrow> nat \<Rightarrow> pyval" where
  "create_text_overlay env self photo_width photo_height =
     (case render_text env self photo_width photo_height of
        None \<Rightarrow> PNone
      | Some img \<Rightarrow> PImage img)"

text \<open>
  \<^verbatim>\<open>Overlay.__init__\<close>, in the three steps its comments name. \<open>Inr\<close> is the object
  built, \<open>Inl\<close> the exception that left the constructor.

  "Store position information": the \<^verbatim>\<open>try\<close> block. A label that does not split
  into two parts at \<^verbatim>\<open>_\<close> raises \<open>ValueError\<close> in the unpacking, a part outside
  the six allowed words raises it explicitly. The handler then calls \<^verbatim>\<open>log\<close> with
  two arguments, and \<^verbatim>\<open>log\<close> takes one, so what leaves the constructor is
  \<open>TypeError\<close>.
\<close>

definition position_information :: "string \<Rightarrow> py_error + string \<times> string" where
  "position_information position =
     (case split_on CHR ''_'' (lower position) of
        [vertical_position, horizontal_position] \<Rightarrow>
          if (vertical_position \<noteq> ''top'' \<and> vertical_position \<noteq> ''bottom'') \<or>
             (horizontal_position \<noteq> ''left'' \<and> horizontal_position \<noteq> ''center'' \<and>
              horizontal_position \<noteq> ''right'')
          then Inl TypeError
          else Inr (vertical_position, horizontal_position)
      | _ \<Rightarrow> Inl TypeError)"

text \<open>
  "Find the type of overlay" and what follows it. A missing, empty or non-string type
  returns early, before \<^verbatim>\<open>rendered_image\<close> and \<^verbatim>\<open>defaults\<close> are assigned.
  A method shadowed by an entry of \<open>data\<close> is not callable (\<open>TypeError\<close>). The last
  branch formats the name \<^verbatim>\<open>kind\<close> into its message.
\<close>

definition find_type ::
  "render_env \<Rightarrow> (string \<rightharpoonup> pyval) \<Rightarrow> overlay \<Rightarrow> nat \<Rightarrow> nat \<Rightarrow> py_error + overlay" where
  "find_type env data self photo_width photo_height =
     (case data ''type'' of
        Some (PStr type) \<Rightarrow>
          if type = [] then Inr self
          else
            (let self3 = self
                   (''type'' \<mapsto> PStr type,
                    ''rendered_image'' \<mapsto> PNone,
                    ''defaults'' \<mapsto> PDict overlay_defaults)
             in if type = ''text'' then
                  (if self3 ''create_text_overlay'' \<noteq> None then Inl TypeError
                   else Inr (self3(''rendered_image'' \<mapsto>
                               create_text_overlay env self3 photo_width photo_height)))
                else if type = ''image'' then
                  (if self3 ''create_image_overlay'' \<noteq> None then Inl TypeError
                   else (case create_image_overlay env self3 of
                           Inl e \<Rightarrow> Inl e
                         | Inr v \<Rightarrow> Inr (self3(''rendered_image'' \<mapsto> v))))
                else (if kind_defined env then Inr self3 else Inl NameError))
      | _ \<Rightarrow> Inr self)"

text \<open>
  The constructor as a whole. Its first loop, over \<^verbatim>\<open>data.items()\<close>, copies every
  entry of \<open>data\<close> into the instance dictionary.
\<close>

definition Overlay_init ::
  "render_env \<Rightarrow> string \<Rightarrow> (string \<rightharpoonup> pyval) \<Rightarrow> nat \<Rightarrow> nat \<Rightarrow> pyval \<Rightarrow> pyval
     \<Rightarrow> py_error + overlay" where
  "Overlay_init env position data photo_width photo_height date_format time_format =
     (let self1 = data
            (''date_format'' \<mapsto> (if truthy date_format then date_format else PStr ''%d %B %Y''),
             ''time_format'' \<mapsto> (if truthy time_format then time_format else PStr ''%H:%M''))
      in case position_information position of
           Inl e \<Rightarrow> Inl e
         | Inr (vertical_position, horizontal_position) \<Rightarrow>
             find_type env data
               (self1(''vertical_position'' \<mapsto> PStr vertical_position,
                      ''horizontal_position'' \<mapsto> PStr horizontal_position))
               photo_width photo_height)"

text \<open>\<^verbatim>\<open>self.rendered_image.width\<close> and \<^verbatim>\<open>self.rendered_image.height\<close>.\<close>

definition rendered_image_width :: "overlay \<Rightarrow> py_error + nat" where
  "rendered_image_width self =
     (case overlay_getattr self ''rendered_image'' of
        Inl e \<Rightarrow> Inl e
      | Inr (PImage img) \<Rightarrow> Inr (img_width img)
      | Inr _ \<Rightarrow> Inl AttributeError)"

definition rendered_image_height :: "overlay \<Rightarrow> py_error + nat" where
  "rendered_image_height self =
     (case overlay_getattr self ''rendered_image'' of
        Inl e \<Rightarrow> Inl e
      | Inr (PImage img) \<Rightarrow> Inr (img_height img)
      | Inr _ \<Rightarrow> Inl AttributeError)"

text \<open>Sequencing of computations that may raise.\<close>

definition and_then :: "py_error + 'a \<Rightarrow> ('a \<Rightarrow> py_error + 'b) \<Rightarrow> py_error + 'b" where
  "and_then m f = (case m of Inl e \<Rightarrow> Inl e | Inr x \<Rightarrow> f x)"

text \<open>\<^verbatim>\<open>Overlay.compute_position\<close>.\<close>

definition compute_position ::
  "overlay \<Rightarrow> nat \<Rightarrow> nat \<Rightarrow> nat \<Rightarrow> nat \<Rightarrow> py_error + int \<times> int" where
  "compute_position self image_width image_height border_top border_bottom =
     and_then (overlay_getattr self ''horizontal_position'') (\<lambda>horizontal_position.
     and_then
       (if horizontal_position = PStr ''left'' then Inr 0
        else if horizontal_position = PStr ''right'' then
          and_then (rendered_image_width self) (\<lambda>w. Inr (int image_width - int w))
        else if horizontal_position = PStr ''center'' then
          and_then (rendered_image_width self) (\<lambda>w.
            Inr (py_int (of_int (int image_width - int w) / 2)))
        else Inr 0) (\<lambda>x.
     and_then (overlay_getattr self ''vertical_position'') (\<lambda>vertical_position.
     and_then
       (if vertical_position = PStr ''top'' then
          and_then (overlay_getattr self ''over_the_picture'') (\<lambda>over_the_picture.
            if truthy over_the_picture then Inr (int border_top) else Inr 0)
        else if vertical_position = PStr ''bottom'' then
          and_then (overlay_getattr self ''over_the_picture'') (\<lambda>over_the_picture.
            if truthy over_the_picture then
              and_then (rendered_image_height self) (\<lambda>h.
                Inr (int image_height - int h - int border_bottom))
            else
              and_then (rendered_image_height self) (\<lambda>h.
                Inr (int image_height - int h)))
        else Inr 0) (\<lambda>y.
     Inr (x, y)))))"

section \<open>Compositing\<close>

text \<open>
  The canvas built by \<^verbatim>\<open>Camera.process_picture\<close>: the size and colour given to
  \<^verbatim>\<open>Image.new\<close> and the \<^verbatim>\<open>paste\<close> calls made on it, in order, each with the
  pasted image and its position.
\<close>

record canvas =
  c_width :: nat
  c_height :: nat
  c_color :: pyval
  c_pastes :: "(image \<times> int \<times> int) list"

text \<open>
  The first loop of \<^verbatim>\<open>process_picture\<close>: one \<^verbatim>\<open>Overlay\<close> per slot, kept when
  its \<^verbatim>\<open>rendered_image\<close> is true. The \<^verbatim>\<open>try\<close> covers the constructor and the
  test, and its handler logs and goes on to the next slot.
\<close>

fun create_overlays ::
  "render_env \<Rightarrow> (string \<times> (string \<rightharpoonup> pyval)) list \<Rightarrow> nat \<Rightarrow> nat \<Rightarrow> pyval \<Rightarrow> pyval
     \<Rightarrow> overlay list" where
  "create_overlays env [] photo_width photo_height date_format time_format = []"
| "create_overlays env ((position, data) # slots) photo_width photo_height date_format time_format =
     (case and_then (Overlay_init env position data photo_width photo_height date_format time_format)
             (\<lambda>overlay. and_then (overlay_getattr overlay ''rendered_image'')
                (\<lambda>rendered_image. Inr (overlay, rendered_image))) of
        Inl e \<Rightarrow> create_overlays env slots photo_width photo_height date_format time_format
      | Inr (overlay, rendered_image) \<Rightarrow>
          if truthy rendered_image
          then overlay # create_overlays env slots photo_width photo_height date_format time_format
          else create_overlays env slots photo_width photo_height date_format time_format)"

text \<open>
  The body of the second loop, which grows \<^verbatim>\<open>border_top\<close> and
  \<^verbatim>\<open>border_bottom\<close>; it stands outside any \<^verbatim>\<open>try\<close>.
\<close>

definition border_step :: "overlay \<Rightarrow> nat \<Rightarrow> nat \<Rightarrow> py_error + nat \<times> nat" where
  "border_step overlay border_top border_bottom =
     and_then (overlay_getattr overlay ''over_the_picture'') (\<lambda>over_the_picture.
       if \<not> truthy over_the_picture then
         and_then (overlay_getattr overlay ''vertical_position'') (\<lambda>vertical_position.
           if vertical_position = PStr ''top'' then
             and_then (rendered_image_height overlay) (\<lambda>h.
               Inr (max border_top h, border_bottom))
           else
             and_then (rendered_image_height overlay) (\<lambda>h.
               Inr (border_top, max border_bottom h)))
       else Inr (border_top, border_bottom))"

fun compute_borders :: "overlay list \<Rightarrow> nat \<Rightarrow> nat \<Rightarrow> py_error + nat \<times> nat" where
  "compute_borders [] border_top border_bottom = Inr (border_top, border_bottom)"
| "compute_borders (overlay # rendered_overlays) border_top border_bottom =
     (case border_step overlay border_top border_bottom of
        Inl e \<Rightarrow> Inl e
      | Inr (border_top', border_bottom') \<Rightarrow>
          compute_borders rendered_overlays border_top' border_bottom')"

text \<open>
  \<^verbatim>\<open>image.paste(im, (x, y), mask=im)\<close>: with a two-item box PIL takes the region
  size from the image or the mask and raises \<open>ValueError\<close> when neither is an image.
\<close>

definition paste :: "canvas \<Rightarrow> pyval \<Rightarrow> int \<times> int \<Rightarrow> py_error + canvas" where
  "paste img_canvas im box =
     (case im of
        PImage img \<Rightarrow> Inr (img_canvas\<lparr>c_pastes := c_pastes img_canvas @ [(img, fst box, snd box)]\<rparr>)
      | _ \<Rightarrow> Inl ValueError)"

text \<open>
  The body of the third loop. \<^verbatim>\<open>overlay.compute_position\<close> finds an entry of the
  instance dictionary before the method, and such an entry is not callable.
\<close>

definition paste_step :: "overlay \<Rightarrow> canvas \<Rightarrow> nat \<Rightarrow> nat \<Rightarrow> py_error + canvas" where
  "paste_step overlay img_canvas border_top border_bottom =
     and_then (overlay_getattr overlay ''rendered_image'') (\<lambda>rendered_image.
       if truthy rendered_image then
         (if overlay ''compute_position'' \<noteq> None then Inl TypeError
          else
            and_then (compute_position overlay (c_width img_canvas) (c_height img_canvas)
                        border_top border_bottom) (\<lambda>xy.
              paste img_canvas rendered_image xy))
       else Inr img_canvas)"

fun paste_overlays :: "overlay list \<Rightarrow> canvas \<Rightarrow> nat \<Rightarrow> nat \<Rightarrow> py_error + canvas" where
  "paste_overlays [] img_canvas border_top border_bottom = Inr img_canvas"
| "paste_overlays (overlay # rendered_overlays) img_canvas border_top border_bottom =
     (case paste_step overlay img_canvas border_top border_bottom of
        Inl e \<Rightarrow> Inl e
      | Inr img_canvas' \<Rightarrow> paste_overlays rendered_overlays img_canvas' border_top border_bottom)"

text \<open>
  \<^verbatim>\<open>Camera.process_picture\<close>, up to the encoding of the result. Its inputs are the
  photo at \<^verbatim>\<open>temp_photo_path\<close> (\<open>None\<close> when it cannot be opened: that is logged and
  the method returns), the items of \<^verbatim>\<open>self.overlays\<close> in order, and the camera's
  \<^verbatim>\<open>date_format\<close>, \<^verbatim>\<open>time_format\<close> and \<^verbatim>\<open>background_color\<close>. \<open>Inr None\<close>
  is the return without a canvas, \<open>Inl\<close> an exception that leaves the method.
\<close>

definition process_picture ::
  "render_env \<Rightarrow> image option \<Rightarrow> (string \<times> (string \<rightharpoonup> pyval)) list \<Rightarrow> pyval \<Rightarrow> pyval \<Rightarrow> pyval
     \<Rightarrow> py_error + canvas option" where
  "process_picture env temp_photo_file overlays date_format time_format background_color =
     (case temp_photo_file of
        None \<Rightarrow> Inr None
      | Some photo \<Rightarrow>
          (let rendered_overlays =
                 create_overlays env overlays (img_width photo) (img_height photo)
                   date_format time_format
           in and_then (compute_borders rendered_overlays 0 0) (\<lambda>(border_top, border_bottom).
                let total_height = img_height photo + border_top + border_bottom;
                    image0 = \<lparr>c_width = img_width photo, c_height = total_height,
                              c_color = background_color, c_pastes = []\<rparr>;
                    image1 = image0\<lparr>c_pastes := c_pastes image0 @ [(photo, 0, int border_top)]\<rparr>
                in and_then (paste_overlays rendered_overlays image1 border_top border_bottom)
                     (\<lambda>img_canvas. Inr (Some img_canvas)))))"

text \<open>
  The borders as the specification words them: the largest rendered height among the
  rendered overlays anchored to the given edge whose \<^verbatim>\<open>over_the_picture\<close> is false,
  and 0 when there is none.
\<close>

definition over_the_picture_flag :: "overlay \<Rightarrow> bool" where
  "over_the_picture_flag overlay =
     (case overlay_getattr overlay ''over_the_picture'' of
        Inr v \<Rightarrow> truthy v
      | Inl e \<Rightarrow> False)"

definition rendered_height :: "overlay \<Rightarrow> nat" where
  "rendered_height overlay =
     (case overlay_getattr overlay ''rendered_image'' of
        Inr (PImage img) \<Rightarrow> img_height img
      | _ \<Rightarrow> 0)"

definition anchored :: "string \<Rightarrow> overlay \<Rightarrow> bool" where
  "anchored edge overlay = (overlay_getattr overlay ''vertical_position'' = Inr (PStr edge))"

definition spec_border :: "string \<Rightarrow> overlay list \<Rightarrow> nat" where
  "spec_border edge rendered_overlays =
     Max (set (0 # map rendered_height
                      (filter (\<lambda>overlay. anchored edge overlay \<and>
                                          \<not> over_the_picture_flag overlay)
                         rendered_overlays)))"

text \<open>
  A well-formed position label, \<^verbatim>\<open><top|bottom>_<left|center|right>\<close>. The constructor
  lowers the label before it looks at it, so the six labels are matched without regard
  to case.
\<close>

definition well_formed_position :: "string \<Rightarrow> bool" where
  "well_formed_position position =
     (lower position \<in> {''top_left'', ''top_center'', ''top_right'',
                         ''bottom_left'', ''bottom_center'', ''bottom_right''})"

section \<open>Sample photos, devices and cameras\<close>

text \<open>
  Concrete inputs for the examples below: a one-pixel photo whose three band means
  are all \<open>v\<close> (its luminance is \<open>v\<close>), a device that delivers that photo at every
  capture, and a camera that has not taken any picture yet.
\<close>

definition grey_photo :: "real \<Rightarrow> image" where
  "grey_photo v = \<lparr>img_width = 1, img_height = 1, img_mean = (v, v, v)\<rparr>"

definition steady_device :: "real \<Rightarrow> device" where
  "steady_device v n setting = Inr (grey_photo v)"

definition new_camera :: "bool \<Rightarrow> camera" where
  "new_camera c = \<lparr>calibrate = c, captures = [], temp_photo = None, calibration_csv = []\<rparr>"

text \<open>
  A blank image of a given size; an environment in which every text overlay renders
  to one given image and every image overlay to another; the slot data of a plain
  text overlay; and an \<open>Overlay\<close> object reduced to the attributes that
  positioning reads.
\<close>

definition blank_image :: "nat \<Rightarrow> nat \<Rightarrow> image" where
  "blank_image w h = \<lparr>img_width = w, img_height = h, img_mean = (0, 0, 0)\<rparr>"

definition fixed_renderer :: "image \<Rightarrow> image \<Rightarrow> render_env" where
  "fixed_renderer label picture =
     \<lparr>render_text = (\<lambda>self photo_width photo_height. Some label),
      render_image = (\<lambda>self. Some picture),
      kind_defined = False\<rparr>"

definition text_slot :: "string \<rightharpoonup> pyval" where
  "text_slot = [''type'' \<mapsto> PStr ''text'', ''text'' \<mapsto> PStr ''%%TIME'']"

definition rendered_overlay :: "string \<Rightarrow> string \<Rightarrow> pyval \<Rightarrow> image \<Rightarrow> overlay" where
  "rendered_overlay vertical horizontal over_the_picture img =
     [''vertical_position'' \<mapsto> PStr vertical,
      ''horizontal_position'' \<mapsto> PStr horizontal,
      ''over_the_picture'' \<mapsto> over_the_picture,
      ''rendered_image'' \<mapsto> PImage img,
      ''defaults'' \<mapsto> PDict overlay_defaults]"

text \<open>
  The slot data of an image overlay drawn over the picture, and of a slot that names
  no type but carries an entry called \<open>rendered_image\<close>.
\<close>

definition image_slot :: "string \<rightharpoonup> pyval" where
  "image_slot = [''type'' \<mapsto> PStr ''image'', ''path'' \<mapsto> PStr ''logo.png'',
                 ''over_the_picture'' \<mapsto> PBool True]"

definition untyped_slot :: "string \<rightharpoonup> pyval" where
  "untyped_slot = [''rendered_image'' \<mapsto> PStr ''x'']"

text \<open>
  Slot data with no entry named after an attribute or a method that the constructor or
  the compositor relies on, and an \<open>Overlay\<close> object as the constructor leaves it
  when it has run to its end and rendering has given an image.
\<close>

definition plain_slot :: "(string \<rightharpoonup> pyval) \<Rightarrow> bool" where
  "plain_slot data =
     (data ''rendered_image'' = None \<and> data ''defaults'' = None \<and>
      data ''compute_position'' = None)"

definition well_rendered :: "overlay \<Rightarrow> bool" where
  "well_rendered overlay =
     ((\<exists>img. overlay ''rendered_image'' = Some (PImage img)) \<and>
      overlay ''defaults'' = Some (PDict overlay_defaults) \<and>
      overlay ''compute_position'' = None \<and>
      (\<exists>v. overlay ''vertical_position'' = Some (PStr v)) \<and>
      (\<exists>h. overlay ''horizontal_position'' = Some (PStr h)))"

section \<open>Facts about the luminance model\<close>

lemma py_int_of_int [simp]: "py_int (of_int n) = n"
  by (simp add: py_int_def)

lemma py_int_numeral [simp]: "py_int (numeral k) = numeral k"
  by (simp add: py_int_def)

lemma MIN_SHUTTER_SPEED_eq: "MIN_SHUTTER_SPEED = 30000"
  by (simp add: MIN_SHUTTER_SPEED_def py_int_def)

lemma MAX_SHUTTER_SPEED_eq: "MAX_SHUTTER_SPEED = 3000000"
  by (simp add: MAX_SHUTTER_SPEED_def py_int_def)

lemma LUMINANCE_FROM_RGB_grey: "0 \<le> v \<Longrightarrow> LUMINANCE_FROM_RGB v v v = v"
proof -
  assume v: "0 \<le> v"
  have "241 / 1000 * (v ^ 2) + 691 / 1000 * (v ^ 2) + 68 / 1000 * (v ^ 2) = v ^ 2"
    by (simp add: algebra_simps)
  then have "LUMINANCE_FROM_RGB v v v = sqrt (v ^ 2)"
    by (simp only: LUMINANCE_FROM_RGB_def)
  with v show ?thesis by simp
qed

lemma py_int_mono: "x \<le> y \<Longrightarrow> py_int x \<le> py_int y"
proof -
  assume xy: "x \<le> y"
  consider "0 \<le> x" | "x < 0" "y < 0" | "x < 0" "0 \<le> y" by linarith
  then show ?thesis
  proof cases
    case 1
    with xy have "0 \<le> y" by simp
    with 1 xy show ?thesis by (simp add: py_int_def floor_mono)
  next
    case 2
    with xy show ?thesis by (simp add: py_int_def ceiling_mono)
  next
    case 3
    have "\<lceil>x\<rceil> \<le> 0" using 3(1) by (simp add: ceiling_le_iff)
    moreover have "0 \<le> \<lfloor>y\<rfloor>" using 3(2) by simp
    ultimately have "\<lceil>x\<rceil> \<le> \<lfloor>y\<rfloor>" by linarith
    with 3 show ?thesis by (simp add: py_int_def)
  qed
qed

lemma py_int_half:
  "2 * py_int (real_of_int n / 2) \<le> n + 1 \<and> n - 1 \<le> 2 * py_int (real_of_int n / 2)"
proof -
  have f: "\<lfloor>real_of_int n / 2\<rfloor> = n div 2"
    using floor_divide_of_int_eq [of n 2, where ?'a = real] by simp
  have c: "\<lceil>real_of_int n / 2\<rceil> = - (- n div 2)"
    using ceiling_divide_eq_div [of n 2, where ?'a = real] by simp
  show ?thesis unfolding py_int_def f c by (simp; presburger)
qed

lemma py_int_half_eq:
  "py_int (real_of_int n / 2) = (if 0 \<le> n then n div 2 else - ((- n) div 2))"
proof -
  have f: "\<lfloor>real_of_int n / 2\<rfloor> = n div 2"
    using floor_divide_of_int_eq [of n 2, where ?'a = real] by simp
  have c: "\<lceil>real_of_int n / 2\<rceil> = - (- n div 2)"
    using ceiling_divide_eq_div [of n 2, where ?'a = real] by simp
  show ?thesis unfolding py_int_def f c by simp
qed

subsection \<open>Rounding to the nearest float\<close>

lemma round_half_even_of_int [simp]: "round_half_even (of_int n) = n"
  by (simp add: round_half_even_def)

lemma round_half_even_bounds:
  "\<lfloor>r\<rfloor> \<le> round_half_even r \<and> round_half_even r \<le> \<lfloor>r\<rfloor> + 1"
  by (simp add: round_half_even_def Let_def)

lemma round_half_even_mono:
  assumes "r \<le> s"
  shows "round_half_even r \<le> round_half_even s"
proof (cases "\<lfloor>r\<rfloor> = \<lfloor>s\<rfloor>")
  case True
  with assms show ?thesis
    by (auto simp: round_half_even_def Let_def)
next
  case False
  with assms have "\<lfloor>r\<rfloor> < \<lfloor>s\<rfloor>"
    using floor_mono [OF assms] by linarith
  with round_half_even_bounds [of r] round_half_even_bounds [of s]
  show ?thesis by linarith
qed

lemma floor_log2_powi:
  assumes "0 < x"
  shows "2 powi \<lfloor>log 2 x\<rfloor> \<le> x \<and> x < 2 powi (\<lfloor>log 2 x\<rfloor> + 1)"
proof -
  define j where "j = \<lfloor>log 2 x\<rfloor>"
  have e1: "(2::real) powr real_of_int j = 2 powi j"
    by (rule powr_real_of_int') simp_all
  have "(2::real) powr real_of_int (j + 1) = 2 powi (j + 1)"
    by (rule powr_real_of_int') simp_all
  then have e2: "(2::real) powr (real_of_int j + 1) = 2 powi (j + 1)"
    by simp
  from floor_log_eq_powr_iff [of x 2 j] assms
  have "2 powr real_of_int j \<le> x \<and> x < 2 powr (real_of_int j + 1)"
    by (simp add: j_def)
  then have "2 powi j \<le> x \<and> x < 2 powi (j + 1)"
    by (simp only: e1 e2)
  then show ?thesis
    by (simp only: j_def)
qed

lemma floor_log2_eqI:
  assumes "2 powi k \<le> x" "x < 2 powi (k + 1)"
  shows "\<lfloor>log 2 x\<rfloor> = k"
proof -
  have pos: "0 < x" using assms(1) zero_less_power_int [of "2::real" k] by linarith
  have e1: "(2::real) powr real_of_int k = 2 powi k"
    by (rule powr_real_of_int') simp_all
  have "(2::real) powr real_of_int (k + 1) = 2 powi (k + 1)"
    by (rule powr_real_of_int') simp_all
  then have e2: "(2::real) powr (real_of_int k + 1) = 2 powi (k + 1)"
    by simp
  from assms have "2 powr real_of_int k \<le> x \<and> x < 2 powr (real_of_int k + 1)"
    unfolding e1 e2 by simp
  with floor_log_eq_powr_iff [of x 2 k] pos show ?thesis by simp
qed

lemma binade_eqI:
  assumes "2 powi k \<le> \<bar>x\<bar>" "\<bar>x\<bar> < 2 powi (k + 1)" "min_exponent \<le> k"
  shows "binade x = k"
  using floor_log2_eqI [OF assms(1,2)] assms(3) by (simp add: binade_def)

lemma binade_cases:
  assumes "x \<noteq> 0"
  obtains (normal) "min_exponent \<le> binade x" "2 powi (binade x) \<le> \<bar>x\<bar>"
                   "\<bar>x\<bar> < 2 powi (binade x + 1)"
        | (subnormal) "binade x = min_exponent" "\<bar>x\<bar> < 2 powi min_exponent"
proof -
  have pos: "0 < \<bar>x\<bar>" using assms by simp
  define j where "j = \<lfloor>log 2 \<bar>x\<bar>\<rfloor>"
  from floor_log2_powi [OF pos]
  have b: "(2::real) powi j \<le> \<bar>x\<bar>" "\<bar>x\<bar> < 2 powi (j + 1)"
    by (simp_all add: j_def)
  show thesis
  proof (cases "min_exponent \<le> j")
    case True
    then have "binade x = j" by (simp add: binade_def j_def)
    with True b normal show ?thesis by simp
  next
    case False
    then have bx: "binade x = min_exponent" by (simp add: binade_def j_def)
    from False have "j + 1 \<le> min_exponent" by simp
    then have "(2::real) powi (j + 1) \<le> 2 powi min_exponent"
      by (intro power_int_increasing) simp_all
    with b(2) have "\<bar>x\<bar> < 2 powi min_exponent" by linarith
    with bx subnormal show ?thesis by simp
  qed
qed

lemma ulp_pos [simp]: "0 < ulp x"
  by (simp add: ulp_def)

lemma ulp_nonneg [simp]: "0 \<le> ulp x"
  by (simp add: ulp_def)

lemma pow2_add: "(2::real) powi (m + n) = 2 powi m * 2 powi n"
  by (rule power_int_add) simp

lemma pow2_diff: "(2::real) powi (m - n) = 2 powi m / 2 powi n"
  by (rule power_int_diff) simp


lemma binade_mono:
  assumes "0 < x" "x \<le> y"
  shows "binade x \<le> binade y"
proof -
  from assms have "log 2 \<bar>x\<bar> \<le> log 2 \<bar>y\<bar>" by simp
  then have "\<lfloor>log 2 \<bar>x\<bar>\<rfloor> \<le> \<lfloor>log 2 \<bar>y\<bar>\<rfloor>" by (rule floor_mono)
  then show ?thesis by (simp add: binade_def)
qed

lemma scaled_by_ulp:
  "2 powi k / ulp x = 2 powi (k + fraction_bits - binade x)"
proof -
  have "k + fraction_bits - binade x = k - (binade x - fraction_bits)" by simp
  then show ?thesis
    unfolding ulp_def by (simp only: pow2_diff)
qed

lemma times_ulp:
  "2 powi k * ulp x = 2 powi (k + binade x - fraction_bits)"
proof -
  have "k + binade x - fraction_bits = k + (binade x - fraction_bits)" by simp
  then show ?thesis
    unfolding ulp_def by (simp only: pow2_add)
qed

lemma round_to_double_nonneg:
  assumes "0 \<le> x"
  shows "0 \<le> round_to_double x"
proof (cases "x = 0")
  case True
  then show ?thesis by (simp add: round_to_double_def)
next
  case False
  with assms have "0 \<le> x / ulp x" by (intro divide_nonneg_nonneg) simp_all
  from round_half_even_mono [OF this] have "0 \<le> round_half_even (x / ulp x)"
    using round_half_even_of_int [of 0] by simp
  with False show ?thesis by (simp add: round_to_double_def)
qed

lemma round_to_double_upper:
  assumes "0 < x"
  shows "round_to_double x \<le> 2 powi (binade x + 1)"
proof -
  from assms have nz: "x \<noteq> 0" by simp
  define P :: int where "P = 2 ^ 53"
  define m where "m = round_half_even (x / ulp x)"
  have P: "of_int P = (2::real) powi (fraction_bits + 1)"
    by (simp add: P_def fraction_bits_def)
  have lt: "\<bar>x\<bar> < 2 powi (binade x + 1)"
    using nz
  proof (cases x rule: binade_cases)
    case normal
    then show ?thesis by simp
  next
    case subnormal
    have "(2::real) powi min_exponent \<le> 2 powi (min_exponent + 1)"
      by (intro power_int_increasing) simp_all
    with subnormal show ?thesis by simp
  qed
  with assms have "x / ulp x \<le> 2 powi (binade x + 1) / ulp x"
    by (intro divide_right_mono) simp_all
  also have "\<dots> = 2 powi (binade x + 1 + fraction_bits - binade x)"
    by (simp only: scaled_by_ulp)
  also have "binade x + 1 + fraction_bits - binade x = fraction_bits + 1" by simp
  finally have "x / ulp x \<le> of_int P" by (simp only: P)
  from round_half_even_mono [OF this] have "m \<le> P"
    by (simp only: round_half_even_of_int m_def)
  then have "real_of_int m \<le> real_of_int P" by (simp only: of_int_le_iff)
  then have "real_of_int m * ulp x \<le> real_of_int P * ulp x"
    by (intro mult_right_mono) simp_all
  also have "real_of_int P * ulp x = 2 powi (fraction_bits + 1 + binade x - fraction_bits)"
    by (simp only: P times_ulp)
  also have "fraction_bits + 1 + binade x - fraction_bits = binade x + 1" by simp
  finally show ?thesis using nz by (simp add: round_to_double_def m_def)
qed

lemma round_to_double_lower:
  assumes "0 < x" "2 powi (binade x) \<le> x"
  shows "2 powi (binade x) \<le> round_to_double x"
proof -
  from assms have nz: "x \<noteq> 0" by simp
  define P :: int where "P = 2 ^ 52"
  define m where "m = round_half_even (x / ulp x)"
  have P: "of_int P = (2::real) powi fraction_bits"
    by (simp add: P_def fraction_bits_def)
  from assms(2) have "2 powi (binade x) / ulp x \<le> x / ulp x"
    by (intro divide_right_mono) simp_all
  moreover have "2 powi (binade x) / ulp x = 2 powi (binade x + fraction_bits - binade x)"
    by (simp only: scaled_by_ulp)
  moreover have "binade x + fraction_bits - binade x = fraction_bits" by simp
  ultimately have "of_int P \<le> x / ulp x" by (simp only: P)
  from round_half_even_mono [OF this] have "P \<le> m"
    by (simp only: round_half_even_of_int m_def)
  then have "real_of_int P \<le> real_of_int m" by (simp only: of_int_le_iff)
  then have "real_of_int P * ulp x \<le> real_of_int m * ulp x"
    by (intro mult_right_mono) simp_all
  moreover have "real_of_int P * ulp x = 2 powi (fraction_bits + binade x - fraction_bits)"
    by (simp only: P times_ulp)
  moreover have "fraction_bits + binade x - fraction_bits = binade x" by simp
  ultimately have "2 powi (binade x) \<le> real_of_int m * ulp x" by (simp only:)
  then show ?thesis using nz by (simp add: round_to_double_def m_def)
qed

lemma round_to_double_mono:
  assumes "0 \<le> x" "x \<le> y"
  shows "round_to_double x \<le> round_to_double y"
proof (cases "x = 0")
  case True
  with assms round_to_double_nonneg [of y] show ?thesis
    by (simp add: round_to_double_def)
next
  case False
  with assms have x: "0 < x" and y: "0 < y" by simp_all
  show ?thesis
  proof (cases "binade x = binade y")
    case True
    then have u: "ulp x = ulp y" by (simp add: ulp_def)
    from assms(2) have "x / ulp y \<le> y / ulp y" by (intro divide_right_mono) simp_all
    from round_half_even_mono [OF this]
    have "of_int (round_half_even (x / ulp y)) * ulp y \<le> of_int (round_half_even (y / ulp y)) * ulp y"
      by (intro mult_right_mono) simp_all
    with x y u show ?thesis by (simp add: round_to_double_def)
  next
    case False
    with binade_mono [OF x assms(2)] have lt: "binade x < binade y" by simp
    have "round_to_double x \<le> 2 powi (binade x + 1)"
      by (rule round_to_double_upper [OF x])
    also from lt have "(2::real) powi (binade x + 1) \<le> 2 powi (binade y)"
      by (intro power_int_increasing) simp_all
    also have "2 powi (binade y) \<le> round_to_double y"
    proof (rule round_to_double_lower [OF y])
      from y have nz: "y \<noteq> 0" by simp
      from nz show "2 powi binade y \<le> y"
      proof (cases y rule: binade_cases)
        case normal
        with y show ?thesis by simp
      next
        case subnormal
        have "min_exponent \<le> binade x" by (simp add: binade_def)
        with lt subnormal(1) show ?thesis by simp
      qed
    qed
    finally show ?thesis .
  qed
qed


lemma round_to_double_eval:
  assumes "2 powi k \<le> \<bar>x\<bar>" "\<bar>x\<bar> < 2 powi (k + 1)" "min_exponent \<le> k"
  shows "round_to_double x =
           of_int (round_half_even (x / 2 powi (k - fraction_bits))) * 2 powi (k - fraction_bits)"
proof -
  have "0 < \<bar>x\<bar>" using assms(1) zero_less_power_int [of "2::real" k] by linarith
  then have "x \<noteq> 0" by simp
  moreover have "ulp x = 2 powi (k - fraction_bits)"
    by (simp only: ulp_def binade_eqI [OF assms])
  ultimately show ?thesis by (simp add: round_to_double_def)
qed

lemma round_to_double_exact:
  assumes n: "\<bar>n\<bar> < 2 ^ 53" and e: "min_exponent - fraction_bits \<le> e"
  shows "round_to_double (of_int n * 2 powi e) = of_int n * 2 powi e"
proof (cases "n = 0")
  case True
  then show ?thesis by (simp add: round_to_double_def)
next
  case False
  define x :: real where "x = of_int n * 2 powi e"
  define k where "k = binade x"
  have nz: "x \<noteq> 0" using False by (simp add: x_def)
  have ax: "\<bar>x\<bar> = of_int \<bar>n\<bar> * 2 powi e"
    by (simp add: x_def abs_mult)
  have "real_of_int \<bar>n\<bar> < real_of_int (2 ^ 53)"
    using n by (simp only: of_int_less_iff)
  then have "real_of_int \<bar>n\<bar> < 2 powi 53" by simp
  then have "\<bar>x\<bar> < 2 powi 53 * 2 powi e"
    unfolding ax by (intro mult_strict_right_mono) simp_all
  then have ub: "\<bar>x\<bar> < 2 powi (53 + e)" by (simp only: pow2_add)
  have kle: "k \<le> e + fraction_bits"
    using nz
  proof (cases x rule: binade_cases)
    case normal
    from normal(2) ub have "(2::real) powi k < 2 powi (53 + e)"
      by (simp add: k_def)
    have "k < 53 + e"
    proof (rule ccontr)
      assume "\<not> k < 53 + e"
      then have "(2::real) powi (53 + e) \<le> 2 powi k"
        by (intro power_int_increasing) simp_all
      with \<open>(2::real) powi k < 2 powi (53 + e)\<close> show False by linarith
    qed
    then show ?thesis by (simp add: fraction_bits_def)
  next
    case subnormal
    with e show ?thesis by (simp add: k_def)
  qed
  define d where "d = nat (e + fraction_bits - k)"
  have d: "int d = e + fraction_bits - k" using kle by (simp add: d_def)
  have u: "ulp x = 2 powi (k - fraction_bits)" by (simp add: ulp_def k_def)
  have "e = int d + (k - fraction_bits)" using d by simp
  then have "(2::real) powi e = 2 powi (int d) * 2 powi (k - fraction_bits)"
    by (simp only: pow2_add)
  then have pe: "(2::real) powi e = 2 ^ d * ulp x"
    by (simp add: u)
  have "x = of_int n * 2 powi e" by (rule x_def)
  also have "\<dots> = of_int n * (2 ^ d * ulp x)" by (rule arg_cong [OF pe])
  finally have xe: "x = of_int n * (2 ^ d * ulp x)" .
  have un: "ulp x \<noteq> 0" using ulp_pos [of x] by linarith
  have "x / ulp x = of_int n * (2 ^ d * ulp x) / ulp x"
    by (rule arg_cong [where f = "\<lambda>t. t / ulp x", OF xe])
  also have "\<dots> = of_int (n * 2 ^ d)" using un by simp
  finally have "round_half_even (x / ulp x) = n * 2 ^ d"
    by (simp only: round_half_even_of_int)
  then have "round_to_double x = of_int (n * 2 ^ d) * ulp x"
    using nz by (simp add: round_to_double_def)
  also have "\<dots> = of_int n * (2 ^ d * ulp x)" by simp
  also have "\<dots> = x" by (rule xe [symmetric])
  finally show ?thesis by (simp only: x_def)
qed

lemma round_to_double_of_int:
  assumes "\<bar>n\<bar> < 2 ^ 53"
  shows "round_to_double (of_int n) = of_int n"
  using round_to_double_exact [OF assms, of 0]
  by (simp add: min_exponent_def fraction_bits_def)

lemma round_to_double_dyadic:
  assumes "\<bar>n\<bar> < 2 ^ 53" "j \<le> 1074"
  shows "round_to_double (of_int n / 2 ^ j) = of_int n / 2 ^ j"
proof -
  have "(2::real) powi (- int j) = 1 / 2 ^ j"
    by (simp add: power_int_minus divide_inverse)
  with round_to_double_exact [OF assms(1), of "- int j"] assms(2)
  show ?thesis
    by (simp add: min_exponent_def fraction_bits_def)
qed

subsection \<open>The target luminance curve\<close>

lemma TARGET_LUMINANCE_low:
  "0 \<le> x \<Longrightarrow> x \<le> 60 \<Longrightarrow> TARGET_LUMINANCE x = min (x + 30) (x / 2 + 45)"
  by (simp add: TARGET_LUMINANCE_def MINIMUM_DAYLIGHT_LUMINANCE_def min_def)

lemma TARGET_LUMINANCE_continuous_low: "continuous_on {0..60} TARGET_LUMINANCE"
proof -
  have "continuous_on {0..60::real} (\<lambda>x. min (x + 30) (x / 2 + 45))"
    by (intro continuous_intros) simp_all
  moreover have "continuous_on {0..60} TARGET_LUMINANCE
      = continuous_on {0..60::real} (\<lambda>x. min (x + 30) (x / 2 + 45))"
    by (rule continuous_on_cong) (simp_all add: TARGET_LUMINANCE_low)
  ultimately show ?thesis by simp
qed

lemma TARGET_LUMINANCE_continuous_high: "continuous_on {60<..} TARGET_LUMINANCE"
proof -
  have "continuous_on {60::real<..} (\<lambda>x. x)" by (intro continuous_intros)
  moreover have "continuous_on {60<..} TARGET_LUMINANCE = continuous_on {60::real<..} (\<lambda>x. x)"
    by (rule continuous_on_cong)
       (simp_all add: TARGET_LUMINANCE_def MINIMUM_DAYLIGHT_LUMINANCE_def)
  ultimately show ?thesis by simp
qed

text \<open>
  Claim C4, as the code has it. \<open>TARGET_LUMINANCE\<close> maps \<open>lum\<close> to \<open>lum\<close> when
  \<open>lum > 60\<close>, to \<open>lum + 30\<close> when \<open>lum < 30\<close> and to \<open>lum / 2 + 45\<close> otherwise. The
  curve is continuous and non-decreasing on \<open>[0, 60]\<close>, the low-light range on which
  \<open>shoot_picture\<close> uses it, and again on \<open>(60, \<infinity>)\<close>; the two pieces do not join at
  60. At the three sample points it takes the values 59, 60 and 61.
\<close>

theorem TARGET_LUMINANCE_curve:
  "(60 < lum \<longrightarrow> TARGET_LUMINANCE lum = lum) \<and>
   (lum < 30 \<longrightarrow> TARGET_LUMINANCE lum = lum + 30) \<and>
   (30 \<le> lum \<and> lum \<le> 60 \<longrightarrow> TARGET_LUMINANCE lum = lum / 2 + 45) \<and>
   continuous_on {0..60} TARGET_LUMINANCE \<and>
   continuous_on {60<..} TARGET_LUMINANCE \<and>
   (x \<le> y \<and> y \<le> 60 \<longrightarrow> TARGET_LUMINANCE x \<le> TARGET_LUMINANCE y) \<and>
   (60 < x \<and> x \<le> y \<longrightarrow> TARGET_LUMINANCE x \<le> TARGET_LUMINANCE y) \<and>
   TARGET_LUMINANCE 29 = 59 \<and> TARGET_LUMINANCE 30 = 60 \<and> TARGET_LUMINANCE 61 = 61"
proof -
  have pieces:
    "60 < lum \<longrightarrow> TARGET_LUMINANCE lum = lum"
    "lum < 30 \<longrightarrow> TARGET_LUMINANCE lum = lum + 30"
    "30 \<le> lum \<and> lum \<le> 60 \<longrightarrow> TARGET_LUMINANCE lum = lum / 2 + 45"
    by (simp_all add: TARGET_LUMINANCE_def MINIMUM_DAYLIGHT_LUMINANCE_def)
  have mono:
    "x \<le> y \<and> y \<le> 60 \<longrightarrow> TARGET_LUMINANCE x \<le> TARGET_LUMINANCE y"
    "60 < x \<and> x \<le> y \<longrightarrow> TARGET_LUMINANCE x \<le> TARGET_LUMINANCE y"
    by (simp_all add: TARGET_LUMINANCE_def MINIMUM_DAYLIGHT_LUMINANCE_def)
  have points:
    "TARGET_LUMINANCE 29 = 59" "TARGET_LUMINANCE 30 = 60" "TARGET_LUMINANCE 61 = 61"
    by (simp_all add: TARGET_LUMINANCE_def MINIMUM_DAYLIGHT_LUMINANCE_def)
  from pieces mono points TARGET_LUMINANCE_continuous_low TARGET_LUMINANCE_continuous_high
  show ?thesis by blast
qed

theorem TARGET_LUMINANCE_curve_witness:
  "TARGET_LUMINANCE 70 = 70 \<and> TARGET_LUMINANCE 10 = 40 \<and> TARGET_LUMINANCE 40 = 65 \<and>
   TARGET_LUMINANCE 10 \<le> TARGET_LUMINANCE 40 \<and> TARGET_LUMINANCE 70 \<le> TARGET_LUMINANCE 80"
  using TARGET_LUMINANCE_curve [of 70 70 80] TARGET_LUMINANCE_curve [of 10 10 40]
        TARGET_LUMINANCE_curve [of 40 10 40]
  by simp

text \<open>
  The curve of \<open>TARGET_LUMINANCE\<close> is not non-decreasing on the non-negative reals:
  it falls from 75 at 60 to 61 at 61.
\<close>

theorem TARGET_LUMINANCE_drop_at_60:
  "(0::real) \<le> 60 \<and> (60::real) \<le> 61 \<and> TARGET_LUMINANCE 60 = 75 \<and> TARGET_LUMINANCE 61 = 61 \<and>
   \<not> TARGET_LUMINANCE 60 \<le> TARGET_LUMINANCE 61"
  by (simp add: TARGET_LUMINANCE_def MINIMUM_DAYLIGHT_LUMINANCE_def)

subsection \<open>Shutter speed from luminance\<close>

lemma round_to_double_between:
  assumes "0 \<le> lo" "lo \<le> x" "x \<le> hi"
      and "round_to_double lo = lo" "round_to_double hi = hi"
  shows "lo \<le> round_to_double x \<and> round_to_double x \<le> hi"
proof -
  from assms(1,2) have "0 \<le> x" by linarith
  from round_to_double_mono [OF assms(1,2)] round_to_double_mono [OF this assms(3)]
  show ?thesis by (simp only: assms(4,5))
qed

lemma float_result_finite:
  assumes "\<bar>round_to_double x\<bar> < 2 ^ 1024"
  shows "float_result x = Some (round_to_double x)"
  using assms by (simp add: float_result_def max_exponent_def)

lemma SHUTTER_SPEED_FROM_LUMINANCE_float:
  assumes "lum \<noteq> 0" "lum < 60"
  shows "SHUTTER_SPEED_FROM_LUMINANCE lum a b =
           (case float_result (of_int a / lum) of
              None \<Rightarrow> Inl OverflowError
            | Some q \<Rightarrow>
                (case float_result (q + of_int b) of
                   None \<Rightarrow> Inl OverflowError
                 | Some s \<Rightarrow> Inr (Some (py_int s))))"
  using assms
  by (simp add: SHUTTER_SPEED_FROM_LUMINANCE_def MINIMUM_DAYLIGHT_LUMINANCE_def
        float_truediv_def float_add_def int_of_float_def split: option.split)

lemma default_speed_between:
  assumes lum: "0 < lum" "lum < 60"
      and lo: "0 \<le> lo" "lo \<le> 600000 / lum" "round_to_double lo = lo"
              "round_to_double (lo + 60000) = lo + 60000"
      and hi: "600000 / lum \<le> hi" "round_to_double hi = hi"
              "round_to_double (hi + 60000) = hi + 60000" "hi + 60000 < 2 ^ 1024"
  shows "\<exists>s. SHUTTER_SPEED_FROM_LUMINANCE lum 600000 60000 = Inr (Some s) \<and>
             \<lfloor>lo + 60000\<rfloor> \<le> s \<and> s \<le> \<lfloor>hi + 60000\<rfloor>"
proof -
  define q where "q = round_to_double (600000 / lum)"
  define t where "t = round_to_double (q + 60000)"
  from round_to_double_between [OF lo(1,2) hi(1) lo(3) hi(2)]
  have q: "lo \<le> q" "q \<le> hi" by (simp_all add: q_def)
  with lo(1) hi(4) have "\<bar>q\<bar> < 2 ^ 1024" by simp
  then have fq: "float_result (600000 / lum) = Some q"
    unfolding q_def by (rule float_result_finite)
  from lo(1) q have "0 \<le> lo + 60000" "lo + 60000 \<le> q + 60000" "q + 60000 \<le> hi + 60000"
    by simp_all
  from round_to_double_between [OF this lo(4) hi(3)]
  have t: "lo + 60000 \<le> t" "t \<le> hi + 60000" by (simp_all add: t_def)
  with lo(1) hi(4) have "\<bar>t\<bar> < 2 ^ 1024" by simp
  then have ft: "float_result (q + 60000) = Some t"
    unfolding t_def by (rule float_result_finite)
  from lo(1) t(1) have t0: "0 \<le> t" by simp
  from lum have "SHUTTER_SPEED_FROM_LUMINANCE lum 600000 60000 = Inr (Some \<lfloor>t\<rfloor>)"
    by (simp add: SHUTTER_SPEED_FROM_LUMINANCE_float fq ft py_int_def t0)
  moreover have "\<lfloor>lo + 60000\<rfloor> \<le> \<lfloor>t\<rfloor>" by (rule floor_mono) (rule t(1))
  moreover have "\<lfloor>t\<rfloor> \<le> \<lfloor>hi + 60000\<rfloor>" by (rule floor_mono) (rule t(2))
  ultimately show ?thesis by blast
qed

lemma round_to_double_numeral:
  "(numeral k :: int) < 2 ^ 53 \<Longrightarrow> round_to_double (numeral k) = numeral k"
  using round_to_double_of_int [of "numeral k"] by simp


lemma default_curve_gap:
  assumes "0 < l1" "l1 + 1 \<le> l2" "l2 < (60::real)"
  shows "600000 / l2 + 2 \<le> 600000 / l1"
proof -
  have l2: "0 < l2" using assms by linarith
  have "l2 * l2 \<le> 60 * 60" using l2 assms(3) by (intro mult_mono) simp_all
  then have sq: "2 * (l2 * l2) \<le> 7200" by simp
  have "(600000 + 2 * l2) * l1 \<le> (600000 + 2 * l2) * (l2 - 1)"
    using assms l2 by (intro mult_left_mono) simp_all
  also have "\<dots> = 600000 * l2 + (2 * (l2 * l2) - 2 * l2 - 600000)" by (simp add: algebra_simps)
  also have "\<dots> \<le> 600000 * l2" using sq l2 by simp
  finally have "(600000 + 2 * l2) * l1 \<le> 600000 * l2" .
  then show ?thesis
    using assms(1) l2 by (simp add: field_simps)
qed

lemma default_speed_9: "SHUTTER_SPEED_FROM_LUMINANCE 9 600000 60000 = Inr (Some 126666)"
proof -
  have "\<exists>s. SHUTTER_SPEED_FROM_LUMINANCE 9 600000 60000 = Inr (Some s) \<and>
             \<lfloor>66666 + 60000 :: real\<rfloor> \<le> s \<and> s \<le> \<lfloor>266667 / 2 ^ 2 + 60000 :: real\<rfloor>"
  proof (rule default_speed_between)
    show "round_to_double 66666 = 66666" by (simp add: round_to_double_numeral)
    show "round_to_double (66666 + 60000) = 66666 + 60000" by (simp add: round_to_double_numeral)
    show "round_to_double (266667 / 2 ^ 2) = 266667 / 2 ^ 2"
      using round_to_double_dyadic [of 266667 2] by simp
    show "round_to_double (266667 / 2 ^ 2 + 60000) = 266667 / 2 ^ 2 + 60000"
      using round_to_double_dyadic [of 506667 2] by simp
  qed simp_all
  then show ?thesis by auto
qed


lemma default_speed_59: "SHUTTER_SPEED_FROM_LUMINANCE 59 600000 60000 = Inr (Some 70169)"
proof -
  have "\<exists>s. SHUTTER_SPEED_FROM_LUMINANCE 59 600000 60000 = Inr (Some s) \<and>
             \<lfloor>10169 + 60000 :: real\<rfloor> \<le> s \<and> s \<le> \<lfloor>20339 / 2 ^ 1 + 60000 :: real\<rfloor>"
  proof (rule default_speed_between)
    show "round_to_double 10169 = 10169" by (simp add: round_to_double_numeral)
    show "round_to_double (10169 + 60000) = 10169 + 60000" by (simp add: round_to_double_numeral)
    show "round_to_double (20339 / 2 ^ 1) = 20339 / 2 ^ 1"
      using round_to_double_dyadic [of 20339 1] by simp
    show "round_to_double (20339 / 2 ^ 1 + 60000) = 20339 / 2 ^ 1 + 60000"
      using round_to_double_dyadic [of 140339 1] by simp
  qed simp_all
  then show ?thesis by auto
qed

lemma default_speed_59_and_a_bit:
  "SHUTTER_SPEED_FROM_LUMINANCE (59 + 1 / 1024) 600000 60000 = Inr (Some 70169)"
proof -
  have "\<exists>s. SHUTTER_SPEED_FROM_LUMINANCE (59 + 1 / 1024) 600000 60000 = Inr (Some s) \<and>
             \<lfloor>10169 + 60000 :: real\<rfloor> \<le> s \<and> s \<le> \<lfloor>20339 / 2 ^ 1 + 60000 :: real\<rfloor>"
  proof (rule default_speed_between)
    show "round_to_double 10169 = 10169" by (simp add: round_to_double_numeral)
    show "round_to_double (10169 + 60000) = 10169 + 60000" by (simp add: round_to_double_numeral)
    show "round_to_double (20339 / 2 ^ 1) = 20339 / 2 ^ 1"
      using round_to_double_dyadic [of 20339 1] by simp
    show "round_to_double (20339 / 2 ^ 1 + 60000) = 20339 / 2 ^ 1 + 60000"
      using round_to_double_dyadic [of 140339 1] by simp
  qed (simp_all add: field_simps)
  then show ?thesis by auto
qed

lemma default_speed_range:
  assumes "1 / 2 ^ 32 \<le> lum" "lum < 60"
  shows "\<exists>s. SHUTTER_SPEED_FROM_LUMINANCE lum 600000 60000 = Inr (Some s) \<and>
             \<lfloor>600000 / lum\<rfloor> + 60000 \<le> s \<and> s \<le> \<lfloor>600000 / lum\<rfloor> + 60001"
proof -
  define n where "n = \<lfloor>600000 / lum\<rfloor>"
  have pos: "0 < lum" using assms(1) by (rule less_le_trans [rotated]) simp
  have "600000 / lum \<le> 600000 * 2 ^ 32"
  proof -
    have "1 \<le> lum * 2 ^ 32" using assms(1) by (simp add: field_simps)
    then have "600000 * 1 \<le> 600000 * (lum * 2 ^ 32)" by (rule mult_left_mono) simp
    then show ?thesis using pos by (simp add: field_simps)
  qed
  then have "n \<le> \<lfloor>600000 * 2 ^ 32 :: real\<rfloor>" unfolding n_def by (rule floor_mono)
  also have "\<lfloor>600000 * 2 ^ 32 :: real\<rfloor> = 600000 * 2 ^ 32"
    using floor_of_int [of "600000 * 2 ^ 32", where ?'a = real] by simp
  finally have n_hi: "n \<le> 600000 * 2 ^ 32" .
  have n_lo: "0 \<le> n" unfolding n_def using pos by simp
  have small: "\<bar>n\<bar> < 2 ^ 53" "\<bar>n + 60000\<bar> < 2 ^ 53" "\<bar>n + 1\<bar> < 2 ^ 53" "\<bar>n + 60001\<bar> < 2 ^ 53"
    using n_lo n_hi by simp_all
  have "\<exists>s. SHUTTER_SPEED_FROM_LUMINANCE lum 600000 60000 = Inr (Some s) \<and>
             \<lfloor>of_int n + 60000 :: real\<rfloor> \<le> s \<and> s \<le> \<lfloor>of_int (n + 1) + 60000 :: real\<rfloor>"
  proof (rule default_speed_between)
    show "0 < lum" by (rule pos)
    show "lum < 60" by (rule assms(2))
    show "0 \<le> real_of_int n" using n_lo by simp
    show "real_of_int n \<le> 600000 / lum" unfolding n_def by (rule of_int_floor_le)
    show "round_to_double (of_int n) = of_int n" using small(1) by (rule round_to_double_of_int)
    show "round_to_double (of_int n + 60000) = of_int n + 60000"
      using round_to_double_of_int [OF small(2)] by (simp add: ac_simps)
    show "600000 / lum \<le> of_int (n + 1)" unfolding n_def by linarith
    show "round_to_double (of_int (n + 1)) = of_int (n + 1)"
      using small(3) by (rule round_to_double_of_int)
    show "round_to_double (of_int (n + 1) + 60000) = of_int (n + 1) + 60000"
      using round_to_double_of_int [OF small(4)] by (simp add: ac_simps)
    have "real_of_int (n + 1) + 60000 \<le> 600000 * 2 ^ 32 + 60001"
      using n_hi by simp
    also have "\<dots> < 2 ^ 1024" by simp
    finally show "real_of_int (n + 1) + 60000 < 2 ^ 1024" .
  qed
  then obtain s where s: "SHUTTER_SPEED_FROM_LUMINANCE lum 600000 60000 = Inr (Some s)"
      "\<lfloor>of_int n + 60000 :: real\<rfloor> \<le> s" "s \<le> \<lfloor>of_int (n + 1) + 60000 :: real\<rfloor>" by blast
  have "\<lfloor>of_int n + 60000 :: real\<rfloor> = n + 60000" by simp
  moreover have "\<lfloor>of_int (n + 1) + 60000 :: real\<rfloor> = n + 60001" by simp
  ultimately show ?thesis using s unfolding n_def by auto
qed


lemma SHUTTER_SPEED_FROM_LUMINANCE_rounded:
  assumes "lum \<noteq> 0" "lum < 60"
  shows "SHUTTER_SPEED_FROM_LUMINANCE lum a b =
           (if 2 ^ 1024 \<le> \<bar>round_to_double (of_int a / lum)\<bar> \<or>
               2 ^ 1024 \<le> \<bar>round_to_double (round_to_double (of_int a / lum) + of_int b)\<bar>
            then Inl OverflowError
            else Inr (Some (py_int (round_to_double (round_to_double (of_int a / lum) + of_int b)))))"
  using assms
  by (simp add: SHUTTER_SPEED_FROM_LUMINANCE_float float_result_def Let_def max_exponent_def
        not_le not_less)

lemma default_speed_antimono:
  assumes "0 < l1" "l1 \<le> l2" "l2 < 60"
      and s1: "SHUTTER_SPEED_FROM_LUMINANCE l1 600000 60000 = Inr (Some s1)"
  shows "\<exists>s2. SHUTTER_SPEED_FROM_LUMINANCE l2 600000 60000 = Inr (Some s2) \<and>
              s2 \<le> s1 \<and> (l1 + 1 \<le> l2 \<longrightarrow> s2 < s1)"
proof -
  define q1 where "q1 = round_to_double (600000 / l1)"
  define q2 where "q2 = round_to_double (600000 / l2)"
  define t1 where "t1 = round_to_double (q1 + 60000)"
  define t2 where "t2 = round_to_double (q2 + 60000)"
  have l2: "0 < l2" and l1: "l1 < 60" using assms by linarith+
  have x: "0 \<le> 600000 / l2" "600000 / l2 \<le> 600000 / l1"
    using assms l2 by (simp_all add: frac_le)
  have q2_0: "0 \<le> q2" unfolding q2_def using x(1) by (rule round_to_double_nonneg)
  have q: "q2 \<le> q1" unfolding q1_def q2_def using x by (rule round_to_double_mono)
  have t2_0: "0 \<le> t2" unfolding t2_def using q2_0 by (intro round_to_double_nonneg) simp
  have t: "t2 \<le> t1" unfolding t1_def t2_def using q2_0 q by (intro round_to_double_mono) simp_all
  have fin1: "\<bar>q1\<bar> < 2 ^ 1024" "\<bar>t1\<bar> < 2 ^ 1024" and s1_eq: "s1 = py_int t1"
    using s1 assms(1) l1 unfolding q1_def t1_def
    by (simp_all add: SHUTTER_SPEED_FROM_LUMINANCE_rounded split: if_splits)
  have fin2: "\<not> (2 ^ 1024 \<le> \<bar>q2\<bar> \<or> 2 ^ 1024 \<le> \<bar>t2\<bar>)"
    using fin1 q t q2_0 t2_0 by simp
  have s2: "SHUTTER_SPEED_FROM_LUMINANCE l2 600000 60000 = Inr (Some (py_int t2))"
    using l2 assms(3) fin2 unfolding q2_def t2_def
    by (simp add: SHUTTER_SPEED_FROM_LUMINANCE_rounded)
  have le: "py_int t2 \<le> s1" unfolding s1_eq using t by (rule py_int_mono)
  have "py_int t2 < s1" if far: "l1 + 1 \<le> l2"
  proof -
    define n where "n = \<lceil>600000 / l2\<rceil>"
    have "1 \<le> l2" using far assms(1) by linarith
    then have "600000 / l2 \<le> 600000" using l2 by (simp add: field_simps)
    then have "n \<le> \<lceil>600000 :: real\<rceil>" unfolding n_def by (rule ceiling_mono)
    then have n_hi: "n \<le> 600000" by simp
    have "\<lceil>0 :: real\<rceil> \<le> n" unfolding n_def using x(1) by (rule ceiling_mono)
    then have n_lo: "0 \<le> n" by simp
    have up: "600000 / l2 \<le> of_int n" unfolding n_def by (rule le_of_int_ceiling)
    have "of_int n < 600000 / l2 + 1" unfolding n_def by linarith
    with default_curve_gap [OF assms(1) far assms(3)]
    have down: "of_int (n + 1) \<le> 600000 / l1" by simp
    have small: "\<bar>n\<bar> < 2 ^ 53" "\<bar>n + 60000\<bar> < 2 ^ 53" "\<bar>n + 1\<bar> < 2 ^ 53" "\<bar>n + 60001\<bar> < 2 ^ 53"
      using n_lo n_hi by simp_all
    have "q2 \<le> round_to_double (of_int n)"
      unfolding q2_def using x(1) up by (rule round_to_double_mono)
    then have q2_n: "q2 \<le> of_int n" by (simp only: round_to_double_of_int [OF small(1)])
    have "t2 \<le> round_to_double (of_int (n + 60000))"
      unfolding t2_def using q2_0 q2_n by (intro round_to_double_mono) simp_all
    then have "t2 \<le> of_int (n + 60000)" by (simp only: round_to_double_of_int [OF small(2)])
    then have "py_int t2 \<le> py_int (of_int (n + 60000))" by (rule py_int_mono)
    then have a: "py_int t2 \<le> n + 60000" by (simp only: py_int_of_int)
    have "round_to_double (of_int (n + 1)) \<le> q1"
      unfolding q1_def using n_lo down by (intro round_to_double_mono) simp_all
    then have q1_n: "of_int (n + 1) \<le> q1" by (simp only: round_to_double_of_int [OF small(3)])
    have "round_to_double (of_int (n + 60001)) \<le> t1"
      unfolding t1_def using n_lo q1_n by (intro round_to_double_mono) simp_all
    then have "of_int (n + 60001) \<le> t1" by (simp only: round_to_double_of_int [OF small(4)])
    then have "py_int (of_int (n + 60001)) \<le> py_int t1" by (rule py_int_mono)
    then have "n + 60001 \<le> s1" by (simp only: py_int_of_int s1_eq)
    with a show ?thesis by simp
  qed
  with s2 le show ?thesis by blast
qed

lemma round_half_even_nearest:
  assumes "of_int n - 1 / 2 < r" "r < of_int n + 1 / 2"
  shows "round_half_even r = n"
proof (cases "of_int n \<le> r")
  case True
  with assms(2) have "\<lfloor>r\<rfloor> = n" by (intro floor_unique) simp_all
  with assms(2) show ?thesis by (simp add: round_half_even_def Let_def)
next
  case False
  with assms(1) have "\<lfloor>r\<rfloor> = n - 1" by (intro floor_unique) simp_all
  with assms(1) show ?thesis by (simp add: round_half_even_def Let_def)
qed

lemma round_half_even_tie_odd:
  assumes "r = of_int f + 1 / 2" "odd f"
  shows "round_half_even r = f + 1"
proof -
  have "\<lfloor>r\<rfloor> = f" unfolding assms(1) by (intro floor_unique) simp_all
  with assms show ?thesis by (simp add: round_half_even_def Let_def)
qed

text \<open>
  Two inputs at which double precision shows. At \<open>lum = 6 + 1 / 2 ^ 50\<close> the quotient
  is rounded to \<open>100000 - 1 / 2 ^ 36\<close>, and adding 60000 is a tie that goes to the even
  neighbour 160000, one more than the floor of the exact sum. At \<open>lum = 1 / 2 ^ 1010\<close>
  the quotient overflows to infinity and \<^verbatim>\<open>int\<close> raises.
\<close>

lemma quotient_tie:
  "round_to_double (600000 / (6 + 1 / 2 ^ 50)) = 100000 - 1 / 2 ^ 36"
proof -
  define x :: real where "x = 600000 / (6 + 1 / 2 ^ 50)"
  have "2 powi 16 \<le> \<bar>x\<bar>" "\<bar>x\<bar> < 2 powi (16 + 1)" "min_exponent \<le> 16"
    by (simp_all add: x_def min_exponent_def field_simps)
  then have "round_to_double x =
      of_int (round_half_even (x / 2 powi (16 - fraction_bits))) * 2 powi (16 - fraction_bits)"
    by (rule round_to_double_eval)
  moreover have "round_half_even (x / 2 powi (16 - fraction_bits)) = 100000 * 2 ^ 36 - 1"
    by (rule round_half_even_nearest) (simp_all add: x_def fraction_bits_def field_simps)
  ultimately show ?thesis
    unfolding x_def by (simp add: fraction_bits_def field_simps)
qed

lemma sum_tie:
  "round_to_double (100000 - 1 / 2 ^ 36 + 60000) = 160000"
proof -
  define x :: real where "x = 100000 - 1 / 2 ^ 36 + 60000"
  have "2 powi 17 \<le> \<bar>x\<bar>" "\<bar>x\<bar> < 2 powi (17 + 1)" "min_exponent \<le> 17"
    by (simp_all add: x_def min_exponent_def field_simps)
  then have "round_to_double x =
      of_int (round_half_even (x / 2 powi (17 - fraction_bits))) * 2 powi (17 - fraction_bits)"
    by (rule round_to_double_eval)
  moreover have "round_half_even (x / 2 powi (17 - fraction_bits)) = (160000 * 2 ^ 35 - 1) + 1"
    by (rule round_half_even_tie_odd) (simp_all add: x_def fraction_bits_def field_simps)
  ultimately show ?thesis
    unfolding x_def by (simp add: fraction_bits_def field_simps)
qed

lemma SHUTTER_SPEED_FROM_LUMINANCE_tie:
  "SHUTTER_SPEED_FROM_LUMINANCE (6 + 1 / 2 ^ 50) 600000 60000 = Inr (Some 160000)"
proof -
  define q where "q = round_to_double (of_int 600000 / (6 + 1 / 2 ^ 50))"
  define t where "t = round_to_double (q + of_int 60000)"
  have "SHUTTER_SPEED_FROM_LUMINANCE (6 + 1 / 2 ^ 50) 600000 60000 =
          (if 2 ^ 1024 \<le> \<bar>q\<bar> \<or> 2 ^ 1024 \<le> \<bar>t\<bar> then Inl OverflowError
           else Inr (Some (py_int t)))"
    unfolding q_def t_def by (rule SHUTTER_SPEED_FROM_LUMINANCE_rounded) simp_all
  moreover have q: "q = 100000 - 1 / 2 ^ 36"
    unfolding q_def by (simp only: of_int_numeral quotient_tie)
  moreover have "t = 160000"
    unfolding t_def q by (simp only: of_int_numeral sum_tie)
  ultimately show ?thesis by simp
qed

lemma SHUTTER_SPEED_FROM_LUMINANCE_overflow:
  "SHUTTER_SPEED_FROM_LUMINANCE (1 / 2 ^ 1010) 600000 60000 = Inl OverflowError"
proof -
  have "round_to_double (of_int 1 * 2 powi 1024) = of_int 1 * 2 powi 1024"
    by (rule round_to_double_exact) (simp_all add: min_exponent_def fraction_bits_def)
  then have e: "round_to_double (2 ^ 1024) = 2 ^ 1024" by simp
  have "round_to_double (2 ^ 1024) \<le> round_to_double (600000 / (1 / 2 ^ 1010))"
    by (rule round_to_double_mono) simp_all
  then have "2 ^ 1024 \<le> \<bar>round_to_double (600000 / (1 / 2 ^ 1010))\<bar>"
    unfolding e by linarith
  moreover have "(1 / 2 ^ 1010 :: real) \<noteq> 0" "(1 / 2 ^ 1010 :: real) < 60" by simp_all
  ultimately show ?thesis
    using SHUTTER_SPEED_FROM_LUMINANCE_rounded [of "1 / 2 ^ 1010" 600000 60000]
    by (simp del: divide_divide_eq_right)
qed

text \<open>
  Claim C5, as the code has it. The quotient \<open>a / lum\<close> and the sum with \<open>b\<close> are
  each rounded to the nearest double, and \<^verbatim>\<open>int\<close> cuts the sum to an integer by
  truncating toward zero (the floor, when the sum is not negative); when the quotient
  or the sum overflows, \<^verbatim>\<open>int\<close> raises \<open>OverflowError\<close> and there is no result. With
  \<open>a = 600000\<close> and \<open>b = 60000\<close>, every luminance from \<open>1 / 2 ^ 32\<close> up to 60 gets a
  result, which is \<open>\<lfloor>600000 / lum\<rfloor> + 60000\<close> or one more; where a luminance gets a
  result, so does every larger one below 60, the result never increases with
  \<open>lum\<close>, and it strictly decreases between two luminances that are at least 1 apart.
  For \<open>lum \<ge> 60\<close> the result is \<open>None\<close>.
\<close>

theorem SHUTTER_SPEED_FROM_LUMINANCE_truncates:
  "(0 < lum \<and> lum < 60 \<and> \<bar>a\<bar> \<le> 2 ^ 53 \<and> \<bar>b\<bar> \<le> 2 ^ 53 \<longrightarrow>
      SHUTTER_SPEED_FROM_LUMINANCE lum a b =
        (let q = round_to_double (of_int a / lum);
             s = round_to_double (q + of_int b)
         in if 2 ^ 1024 \<le> \<bar>q\<bar> \<or> 2 ^ 1024 \<le> \<bar>s\<bar> then Inl OverflowError
            else Inr (Some (if 0 \<le> s then \<lfloor>s\<rfloor> else \<lceil>s\<rceil>)))) \<and>
   (1 / 2 ^ 32 \<le> lum \<and> lum < 60 \<longrightarrow>
      (\<exists>s. SHUTTER_SPEED_FROM_LUMINANCE lum 600000 60000 = Inr (Some s) \<and>
           \<lfloor>600000 / lum\<rfloor> + 60000 \<le> s \<and> s \<le> \<lfloor>600000 / lum\<rfloor> + 60001)) \<and>
   (0 < l1 \<and> l1 \<le> l2 \<and> l2 < 60 \<and>
    SHUTTER_SPEED_FROM_LUMINANCE l1 600000 60000 = Inr (Some s1) \<longrightarrow>
      (\<exists>s2. SHUTTER_SPEED_FROM_LUMINANCE l2 600000 60000 = Inr (Some s2) \<and>
            s2 \<le> s1 \<and> (l1 + 1 \<le> l2 \<longrightarrow> s2 < s1))) \<and>
   (60 \<le> lum' \<longrightarrow> SHUTTER_SPEED_FROM_LUMINANCE lum' a b = Inr None)"
proof (intro conjI impI)
  assume "0 < lum \<and> lum < 60 \<and> \<bar>a\<bar> \<le> 2 ^ 53 \<and> \<bar>b\<bar> \<le> 2 ^ 53"
  then have "lum \<noteq> 0" "lum < 60" by simp_all
  then show "SHUTTER_SPEED_FROM_LUMINANCE lum a b =
        (let q = round_to_double (of_int a / lum);
             s = round_to_double (q + of_int b)
         in if 2 ^ 1024 \<le> \<bar>q\<bar> \<or> 2 ^ 1024 \<le> \<bar>s\<bar> then Inl OverflowError
            else Inr (Some (if 0 \<le> s then \<lfloor>s\<rfloor> else \<lceil>s\<rceil>)))"
    unfolding Let_def py_int_def [symmetric] by (rule SHUTTER_SPEED_FROM_LUMINANCE_rounded)
next
  assume "1 / 2 ^ 32 \<le> lum \<and> lum < 60"
  then show "\<exists>s. SHUTTER_SPEED_FROM_LUMINANCE lum 600000 60000 = Inr (Some s) \<and>
           \<lfloor>600000 / lum\<rfloor> + 60000 \<le> s \<and> s \<le> \<lfloor>600000 / lum\<rfloor> + 60001"
    using default_speed_range [of lum] by blast
next
  assume "0 < l1 \<and> l1 \<le> l2 \<and> l2 < 60 \<and>
    SHUTTER_SPEED_FROM_LUMINANCE l1 600000 60000 = Inr (Some s1)"
  then show "\<exists>s2. SHUTTER_SPEED_FROM_LUMINANCE l2 600000 60000 = Inr (Some s2) \<and>
            s2 \<le> s1 \<and> (l1 + 1 \<le> l2 \<longrightarrow> s2 < s1)"
    using default_speed_antimono [of l1 l2 s1] by blast
next
  assume "60 \<le> lum'"
  then show "SHUTTER_SPEED_FROM_LUMINANCE lum' a b = Inr None"
    by (simp add: SHUTTER_SPEED_FROM_LUMINANCE_def MINIMUM_DAYLIGHT_LUMINANCE_def)
qed

theorem SHUTTER_SPEED_FROM_LUMINANCE_truncates_witness:
  "SHUTTER_SPEED_FROM_LUMINANCE 9 600000 60000 = Inr (Some 126666) \<and>
   126666 \<le> \<lfloor>600000 / 9 :: real\<rfloor> + 60001 \<and>
   (\<exists>s2. SHUTTER_SPEED_FROM_LUMINANCE 10 600000 60000 = Inr (Some s2) \<and> s2 < 126666) \<and>
   SHUTTER_SPEED_FROM_LUMINANCE 60 600000 60000 = Inr None"
  using SHUTTER_SPEED_FROM_LUMINANCE_truncates [of 9 600000 60000 9 10 126666 60]
        default_speed_9
  by auto

text \<open>
  The result is not \<open>round (a / lum + b)\<close>: at \<open>lum = 9\<close> the code returns 126666 and
  rounding gives 126667. It is not strictly decreasing either: the floats 59 and
  \<open>59 + 1 / 1024\<close> get the same shutter speed.
\<close>

theorem SHUTTER_SPEED_FROM_LUMINANCE_not_round:
  "SHUTTER_SPEED_FROM_LUMINANCE 9 600000 60000 = Inr (Some 126666) \<and>
   round (600000 / 9 + 60000 :: real) = 126667 \<and>
   (59::real) < 59 + 1 / 1024 \<and>
   SHUTTER_SPEED_FROM_LUMINANCE (59 + 1 / 1024) 600000 60000
     = SHUTTER_SPEED_FROM_LUMINANCE 59 600000 60000"
proof (intro conjI)
  show "SHUTTER_SPEED_FROM_LUMINANCE 9 600000 60000 = Inr (Some 126666)"
    by (rule default_speed_9)
  show "round (600000 / 9 + 60000 :: real) = 126667" by (simp add: round_def)
  show "(59::real) < 59 + 1 / 1024" by simp
  show "SHUTTER_SPEED_FROM_LUMINANCE (59 + 1 / 1024) 600000 60000
     = SHUTTER_SPEED_FROM_LUMINANCE 59 600000 60000"
    by (simp only: default_speed_59 default_speed_59_and_a_bit)
qed

section \<open>Shooting\<close>

lemma shoot_picture_inner_None:
  "shoot_picture_inner dev None cam =
     (case dev (length (captures cam)) None of
        Inl e \<Rightarrow> (Some e, cam\<lparr>captures := captures cam @ [None]\<rparr>)
      | Inr photo \<Rightarrow> (None, cam\<lparr>captures := captures cam @ [None], temp_photo := Some photo\<rparr>))"
  by (simp add: shoot_picture_inner_def Let_def split: sum.splits)

lemma default_speed_30: "SHUTTER_SPEED_FROM_LUMINANCE 30 600000 60000 = Inr (Some 80000)"
proof -
  have "\<exists>s. SHUTTER_SPEED_FROM_LUMINANCE 30 600000 60000 = Inr (Some s) \<and>
             \<lfloor>20000 + 60000 :: real\<rfloor> \<le> s \<and> s \<le> \<lfloor>20000 + 60000 :: real\<rfloor>"
    by (rule default_speed_between) (simp_all add: round_to_double_numeral)
  then show ?thesis by auto
qed

lemma LUMINANCE_grey: "0 \<le> v \<Longrightarrow> LUMINANCE_FROM_PICTURE (grey_photo v) = v"
  by (simp add: LUMINANCE_FROM_PICTURE_def grey_photo_def LUMINANCE_FROM_RGB_grey)

text \<open>
  A first photo with luminance at least 60 is accepted after one capture.
\<close>

lemma shoot_picture_daylight:
  assumes "dev (length (captures cam)) None = Inr photo"
      and "60 \<le> LUMINANCE_FROM_PICTURE photo"
  shows "shoot_picture g dev cam =
           (None, cam\<lparr>captures := captures cam @ [None], temp_photo := Some photo\<rparr>)"
  using assms
  by (simp add: shoot_picture_def shoot_picture_inner_None MINIMUM_DAYLIGHT_LUMINANCE_def)

text \<open>
  Outside calibration mode, a first photo with luminance from \<open>1 / 2 ^ 32\<close> up to 60 is
  followed by exactly one more capture, at the shutter speed computed from the
  module's constants, and whatever that capture gives is kept.
\<close>

lemma shoot_picture_low_light:
  assumes "dev (length (captures cam)) None = Inr photo"
      and "1 / 2 ^ 32 \<le> LUMINANCE_FROM_PICTURE photo" "LUMINANCE_FROM_PICTURE photo < 60"
      and "\<not> calibrate cam"
  shows "\<exists>speed. \<lfloor>600000 / LUMINANCE_FROM_PICTURE photo\<rfloor> + 60000 \<le> speed \<and>
           speed \<le> \<lfloor>600000 / LUMINANCE_FROM_PICTURE photo\<rfloor> + 60001 \<and>
           SHUTTER_SPEED_FROM_LUMINANCE (LUMINANCE_FROM_PICTURE photo) 600000 60000
             = Inr (Some speed) \<and>
           shoot_picture module_at_import dev cam =
             (case dev (Suc (length (captures cam))) (Some speed) of
                Inl e \<Rightarrow> (Some e, cam\<lparr>captures := captures cam @ [None, Some speed],
                                       temp_photo := Some photo\<rparr>)
              | Inr photo' \<Rightarrow> (None, cam\<lparr>captures := captures cam @ [None, Some speed],
                                       temp_photo := Some photo'\<rparr>))"
proof -
  from default_speed_range [OF assms(2,3)] obtain speed where
    speed: "SHUTTER_SPEED_FROM_LUMINANCE (LUMINANCE_FROM_PICTURE photo) 600000 60000
              = Inr (Some speed)"
      "\<lfloor>600000 / LUMINANCE_FROM_PICTURE photo\<rfloor> + 60000 \<le> speed"
      "speed \<le> \<lfloor>600000 / LUMINANCE_FROM_PICTURE photo\<rfloor> + 60001" by blast
  have "0 < LUMINANCE_FROM_PICTURE photo"
    using assms(2) by (rule less_le_trans [rotated]) simp
  then have "0 \<le> 600000 / LUMINANCE_FROM_PICTURE photo" by simp
  then have "0 \<le> \<lfloor>600000 / LUMINANCE_FROM_PICTURE photo\<rfloor>" by (simp only: zero_le_floor)
  with speed(2) have sp: "speed \<noteq> 0" by linarith
  have "shoot_picture module_at_import dev cam =
             (case dev (Suc (length (captures cam))) (Some speed) of
                Inl e \<Rightarrow> (Some e, cam\<lparr>captures := captures cam @ [None, Some speed],
                                       temp_photo := Some photo\<rparr>)
              | Inr photo' \<Rightarrow> (None, cam\<lparr>captures := captures cam @ [None, Some speed],
                                       temp_photo := Some photo'\<rparr>))"
    using assms(1,3,4) sp
    by (simp add: shoot_picture_def shoot_picture_inner_None SHUTTER_SPEED_FROM_PICTURE_def
          speed(1) module_at_import_def
          MINIMUM_DAYLIGHT_LUMINANCE_def shoot_picture_inner_def
          split: sum.splits)
  with speed show ?thesis by blast
qed

text \<open>
  Claim C10. When the first photo has luminance 0 and calibration mode is off,
  \<open>shoot_picture\<close> is left by \<open>ZeroDivisionError\<close>, raised by the division in
  \<open>SHUTTER_SPEED_FROM_LUMINANCE\<close>, after the first capture and before any second one.
\<close>

theorem shoot_picture_black_frame:
  assumes "dev (length (captures cam)) None = Inr photo"
      and "LUMINANCE_FROM_PICTURE photo = 0"
      and "\<not> calibrate cam"
  shows "shoot_picture g dev cam =
           (Some ZeroDivisionError, cam\<lparr>captures := captures cam @ [None], temp_photo := Some photo\<rparr>)"
  using assms
  by (simp add: shoot_picture_def shoot_picture_inner_None SHUTTER_SPEED_FROM_PICTURE_def
        SHUTTER_SPEED_FROM_LUMINANCE_def float_truediv_def MINIMUM_DAYLIGHT_LUMINANCE_def)

theorem shoot_picture_black_frame_witness:
  "shoot_picture module_at_import (steady_device 0) (new_camera False)
     = (Some ZeroDivisionError,
        (new_camera False)\<lparr>captures := [None], temp_photo := Some (grey_photo 0)\<rparr>)"
  using shoot_picture_black_frame
          [of "steady_device 0" "new_camera False" "grey_photo 0" module_at_import]
  by (simp add: steady_device_def new_camera_def LUMINANCE_grey)

text \<open>
  Claim C6 says that a first photo with luminance below 60, outside calibration mode, is
  always followed by exactly one more capture. For an all-black first photo
  (luminance 0, below 60) the code takes one capture and raises; the docstring of
  \<open>shoot_picture\<close> promises that it "adjusts the shutter speed camera value and tries
  again" when the luminance is too low.
\<close>

theorem shoot_picture_black_frame_no_retry:
  "LUMINANCE_FROM_PICTURE (grey_photo 0) < 60 \<and>
   shoot_picture module_at_import (steady_device 0)
       (fst (Camera_init module_at_import None None None))
     = (Some ZeroDivisionError,
        \<lparr>calibrate = False, captures = [None], temp_photo = Some (grey_photo 0),
         calibration_csv = []\<rparr>)"
  by (simp add: shoot_picture_def shoot_picture_inner_def Let_def Camera_init_def
        LUMINANCE_grey steady_device_def
        SHUTTER_SPEED_FROM_PICTURE_def SHUTTER_SPEED_FROM_LUMINANCE_def float_truediv_def
        MINIMUM_DAYLIGHT_LUMINANCE_def module_at_import_def)

subsection \<open>Calibrated parameters\<close>

lemma Camera_init_module_unchanged:
  "fst (snd (Camera_init g image_calibrate calibration_flag calibrated_parameters)) = g"
  by (simp add: Camera_init_def Let_def)

text \<open>
  Claim C1 says that the constants read from the calibration override file are the
  ones the shutter-speed formula consumes. With the file holding the line
  \<^verbatim>\<open>1000 2000\<close>, \<open>Camera.__init__\<close> logs \<open>A=1000, B=2000\<close> and leaves the module
  constants at 600000 and 60000; a first photo of luminance 30 is then reshot at
  \<open>int (600000 / 30 + 60000) = 80000\<close>, not at \<open>int (1000 / 30 + 2000) = 2033\<close>.
\<close>

theorem calibrated_parameters_not_consumed:
  "Camera_init module_at_import None None (Some [''1000 2000''])
     = (new_camera False, module_at_import,
        [''Calibration data collection is OFF'',
         ''Camera configuration for low light: A=1000, B=2000'']) \<and>
   shoot_picture module_at_import (steady_device 30) (new_camera False)
     = (None, (new_camera False)\<lparr>captures := [None, Some 80000],
                                  temp_photo := Some (grey_photo 30)\<rparr>) \<and>
   py_int (1000 / 30 + 2000) = 2033"
proof (intro conjI)
  show "Camera_init module_at_import None None (Some [''1000 2000''])
     = (new_camera False, module_at_import,
        [''Calibration data collection is OFF'',
         ''Camera configuration for low light: A=1000, B=2000''])"
    by (simp add: Camera_init_def read_calibrated_parameters_def Let_def new_camera_def)
next
  show "shoot_picture module_at_import (steady_device 30) (new_camera False)
     = (None, (new_camera False)\<lparr>captures := [None, Some 80000],
                                  temp_photo := Some (grey_photo 30)\<rparr>)"
    by (simp add: shoot_picture_def shoot_picture_inner_def Let_def LUMINANCE_grey
          steady_device_def new_camera_def
          SHUTTER_SPEED_FROM_PICTURE_def default_speed_30
          MINIMUM_DAYLIGHT_LUMINANCE_def module_at_import_def)
next
  show "py_int (1000 / 30 + 2000) = 2033"
    by (simp add: py_int_def)
qed

section \<open>The calibration search\<close>

lemma calibration_loop_cases:
  assumes s: "s = py_int (real_of_int (mn + mx) / 2)"
  obtains
    (stop) e cam1 where
      "calibration_loop dev lum t i mn mx cam = (e, i + 1, s, cam1)"
      "length (captures cam1) = length (captures cam) + 1"
  | (dark) cam1 where
      "s + 5 \<le> mx"
      "calibration_loop dev lum t i mn mx cam = calibration_loop dev lum t (i + 1) s mx cam1"
      "length (captures cam1) = length (captures cam) + 1"
  | (bright) cam1 where
      "mn + 5 \<le> s"
      "calibration_loop dev lum t i mn mx cam = calibration_loop dev lum t (i + 1) mn s cam1"
      "length (captures cam1) = length (captures cam) + 1"
proof -
  note unf = calibration_loop.simps [of dev lum t i mn mx cam, unfolded Let_def, folded s]
  define setting where "setting = (if s \<noteq> 0 then Some s else None)"
  have inner: "shoot_picture_inner dev (Some s) cam =
      (case dev (length (captures cam)) setting of
         Inl e \<Rightarrow> (Some e, cam\<lparr>captures := captures cam @ [setting]\<rparr>)
       | Inr photo \<Rightarrow> (None, cam\<lparr>captures := captures cam @ [setting], temp_photo := Some photo\<rparr>))"
    by (simp add: shoot_picture_inner_def setting_def Let_def split: sum.splits)
  show thesis
  proof (cases "dev (length (captures cam)) setting")
    case (Inl e)
    show thesis
      by (rule stop [of "Some e" "cam\<lparr>captures := captures cam @ [setting]\<rparr>"])
         (simp_all add: unf inner Inl)
  next
    case (Inr photo)
    let ?cam1 = "cam\<lparr>captures := captures cam @ [setting], temp_photo := Some photo\<rparr>"
    let ?L = "LUMINANCE_FROM_PICTURE photo"
    consider
      (hit) "?L \<ge> t - TARGET_LUMINOSITY_MARGIN \<and> ?L \<le> t + TARGET_LUMINOSITY_MARGIN"
    | (d1) "\<not> (?L \<ge> t - TARGET_LUMINOSITY_MARGIN \<and> ?L \<le> t + TARGET_LUMINOSITY_MARGIN)"
           "?L < t - TARGET_LUMINOSITY_MARGIN" "s + 5 > mx"
    | (d2) "\<not> (?L \<ge> t - TARGET_LUMINOSITY_MARGIN \<and> ?L \<le> t + TARGET_LUMINOSITY_MARGIN)"
           "?L < t - TARGET_LUMINOSITY_MARGIN" "\<not> s + 5 > mx"
    | (b1) "\<not> (?L \<ge> t - TARGET_LUMINOSITY_MARGIN \<and> ?L \<le> t + TARGET_LUMINOSITY_MARGIN)"
           "\<not> ?L < t - TARGET_LUMINOSITY_MARGIN" "mn + 5 > s"
    | (b2) "\<not> (?L \<ge> t - TARGET_LUMINOSITY_MARGIN \<and> ?L \<le> t + TARGET_LUMINOSITY_MARGIN)"
           "\<not> ?L < t - TARGET_LUMINOSITY_MARGIN" "\<not> mn + 5 > s"
      by blast
    then show thesis
    proof cases
      case hit
      show thesis
        by (rule stop [of None "?cam1\<lparr>calibration_csv := calibration_csv ?cam1 @ [(lum, ?L, s)]\<rparr>"])
           (use hit in \<open>simp_all add: unf inner Inr\<close>)
    next
      case d1
      show thesis
        by (rule stop [of None ?cam1]) (use d1 in \<open>simp_all add: unf inner Inr\<close>)
    next
      case d2
      show thesis
        by (rule dark [of ?cam1]) (use d2 in \<open>simp_all add: unf inner Inr\<close>)
    next
      case b1
      show thesis
        by (rule stop [of None ?cam1]) (use b1 in \<open>simp_all add: unf inner Inr\<close>)
    next
      case b2
      show thesis
        by (rule bright [of ?cam1]) (use b2 in \<open>simp_all add: unf inner Inr\<close>)
    qed
  qed
qed

lemma calibration_loop_bound_aux:
  "max_speed - min_speed \<le> 8 * 2 ^ k \<Longrightarrow>
   calibration_loop dev lum t i min_speed max_speed cam = (err, i', s, cam') \<Longrightarrow>
   i < i' \<and> i' \<le> i + k + 1 \<and> length (captures cam') = length (captures cam) + (i' - i)"
proof (induction k arbitrary: i min_speed max_speed cam)
  case 0
  define m where "m = py_int (real_of_int (min_speed + max_speed) / 2)"
  from "0.prems"(1) py_int_half [of "min_speed + max_speed"]
  have a: "max_speed < m + 5" and b: "m < min_speed + 5"
    by (simp_all add: m_def)
  from m_def show ?case
  proof (cases rule: calibration_loop_cases [where dev = dev and lum = lum and t = t and i = i and cam = cam])
    case (stop e cam1)
    with "0.prems"(2) show ?thesis by auto
  next
    case (dark cam1)
    with a show ?thesis by simp
  next
    case (bright cam1)
    with b show ?thesis by simp
  qed
next
  case (Suc k)
  define m where "m = py_int (real_of_int (min_speed + max_speed) / 2)"
  from Suc.prems(1) py_int_half [of "min_speed + max_speed"]
  have a: "max_speed - m \<le> 8 * 2 ^ k" and b: "m - min_speed \<le> 8 * 2 ^ k"
    by (simp_all add: m_def)
  from m_def show ?case
  proof (cases rule: calibration_loop_cases [where dev = dev and lum = lum and t = t and i = i and cam = cam])
    case (stop e cam1)
    with Suc.prems(2) show ?thesis by auto
  next
    case (dark cam1)
    from Suc.prems(2) dark(2)
    have "calibration_loop dev lum t (i + 1) m max_speed cam1 = (err, i', s, cam')" by simp
    from Suc.IH [OF a this] dark(3) show ?thesis by (simp; linarith)
  next
    case (bright cam1)
    from Suc.prems(2) bright(2)
    have "calibration_loop dev lum t (i + 1) min_speed m cam1 = (err, i', s, cam')" by simp
    from Suc.IH [OF b this] bright(3) show ?thesis by (simp; linarith)
  qed
qed

text \<open>
  Claim C2. Whatever the device does at each capture (deliver a photo of any luminance,
  or raise), the calibration loop started on the bounds 30000 and 3000000 is left
  after at least one and at most 20 iterations, and it has then made exactly one
  capture per iteration. The loop is a total function: its termination is proved with
  its definition.
\<close>

theorem calibration_loop_at_most_20:
  "(case calibration_loop dev luminance target_luminance 0 MIN_SHUTTER_SPEED MAX_SHUTTER_SPEED cam of
      (err, i, shutter_speed, cam') \<Rightarrow>
        1 \<le> i \<and> i \<le> 20 \<and> length (captures cam') = length (captures cam) + i)"
proof -
  obtain err i s cam' where
    r: "calibration_loop dev luminance target_luminance 0 MIN_SHUTTER_SPEED MAX_SHUTTER_SPEED cam
          = (err, i, s, cam')"
    by (metis prod_cases4)
  have "MAX_SHUTTER_SPEED - MIN_SHUTTER_SPEED \<le> 8 * 2 ^ 19"
    by (simp add: MIN_SHUTTER_SPEED_eq MAX_SHUTTER_SPEED_eq)
  from calibration_loop_bound_aux [OF this r] show ?thesis
    by (simp add: r)
qed

lemma calibration_loop_step:
  assumes s: "s = py_int (real_of_int (mn + mx) / 2)"
      and d: "dev (length (captures cam)) (if s \<noteq> 0 then Some s else None) = Inr photo"
      and c: "cam1 = cam\<lparr>captures := captures cam @ [if s \<noteq> 0 then Some s else None],
                         temp_photo := Some photo\<rparr>"
      and l: "new_luminance = LUMINANCE_FROM_PICTURE photo"
  shows "calibration_loop dev lum t i mn mx cam =
     (if new_luminance \<ge> t - TARGET_LUMINOSITY_MARGIN \<and> new_luminance \<le> t + TARGET_LUMINOSITY_MARGIN
      then (None, i + 1, s,
            cam1\<lparr>calibration_csv := calibration_csv cam1 @ [(lum, new_luminance, s)]\<rparr>)
      else if new_luminance < t - TARGET_LUMINOSITY_MARGIN
      then (if s + 5 > mx then (None, i + 1, s, cam1)
            else calibration_loop dev lum t (i + 1) s mx cam1)
      else (if mn + 5 > s then (None, i + 1, s, cam1)
            else calibration_loop dev lum t (i + 1) mn s cam1))"
proof -
  note unf = calibration_loop.simps [of dev lum t i mn mx cam, unfolded Let_def, folded s]
  have inner: "shoot_picture_inner dev (Some s) cam = (None, cam1)"
    using d by (simp add: shoot_picture_inner_def c Let_def split: sum.splits)
  show ?thesis
    by (simp add: unf inner l) (simp add: c)
qed

text \<open>
  Claim C3, as the code has it. Consider one iteration of the calibration loop in which
  the device delivers a photo, and let \<open>min_speed'\<close> and \<open>max_speed'\<close> be the bounds
  as the iteration's update leaves them. If \<open>min_speed' + 5 > max_speed'\<close>, the loop is
  left without a further capture: its last capture is the one of this iteration and
  the shutter speed it reports is the one just tried, whether or not the luminance met
  the margin. If \<open>min_speed' + 5 \<le> max_speed'\<close> and the margin was missed, the loop goes
  on with the new bounds; in particular it goes on when \<open>min_speed' + 5 = max_speed'\<close>.
\<close>

theorem calibration_loop_exit_guard:
  assumes "s = py_int (real_of_int (min_speed + max_speed) / 2)"
      and "dev (length (captures cam)) (if s \<noteq> 0 then Some s else None) = Inr photo"
      and "cam1 = cam\<lparr>captures := captures cam @ [if s \<noteq> 0 then Some s else None],
                         temp_photo := Some photo\<rparr>"
      and "new_luminance = LUMINANCE_FROM_PICTURE photo"
      and "min_speed' = (if new_luminance < target_luminance - TARGET_LUMINOSITY_MARGIN
                         then s else min_speed)"
      and "max_speed' = (if new_luminance < target_luminance - TARGET_LUMINOSITY_MARGIN
                         then max_speed else s)"
  shows "(min_speed' + 5 > max_speed' \<longrightarrow>
            (\<exists>cam'. calibration_loop dev luminance target_luminance i min_speed max_speed cam
                       = (None, i + 1, s, cam') \<and>
                    captures cam' = captures cam1)) \<and>
         (\<not> min_speed' + 5 > max_speed' \<and>
          \<not> (new_luminance \<ge> target_luminance - TARGET_LUMINOSITY_MARGIN \<and>
             new_luminance \<le> target_luminance + TARGET_LUMINOSITY_MARGIN) \<longrightarrow>
            calibration_loop dev luminance target_luminance i min_speed max_speed cam
              = calibration_loop dev luminance target_luminance (i + 1) min_speed' max_speed' cam1)"
proof -
  note step = calibration_loop_step
    [where dev = dev and cam = cam and lum = luminance and t = target_luminance and i = i,
     OF assms(1-4)]
  from assms(5,6) show ?thesis
    by (simp add: step)
qed

lemma steady_device_continue:
  assumes "0 \<le> v" "t + 1 < v" "2 \<le> mn + mx" "mn + 5 \<le> (mn + mx) div 2"
  shows "calibration_loop (steady_device v) lum t i mn mx cam
     = calibration_loop (steady_device v) lum t (i + 1) mn ((mn + mx) div 2)
         (cam\<lparr>captures := captures cam @ [Some ((mn + mx) div 2)],
               temp_photo := Some (grey_photo v)\<rparr>)"
proof -
  have s: "(mn + mx) div 2 = py_int (real_of_int (mn + mx) / 2)"
    using assms(3) py_int_half_eq [of "mn + mx"] by simp
  have nz: "(mn + mx) div 2 \<noteq> 0" using assms(3) by linarith
  have d: "steady_device v (length (captures cam))
             (if (mn + mx) div 2 \<noteq> 0 then Some ((mn + mx) div 2) else None) = Inr (grey_photo v)"
    by (simp add: steady_device_def)
  note step = calibration_loop_step
    [where dev = "steady_device v" and cam = cam and lum = lum and t = t and i = i,
     OF s d refl refl]
  show ?thesis
    using assms(1,2,4) nz
    by (simp add: step LUMINANCE_grey TARGET_LUMINOSITY_MARGIN_def)
qed

lemma steady_device_stop:
  assumes "0 \<le> v" "t + 1 < v" "2 \<le> mn + mx" "\<not> mn + 5 \<le> (mn + mx) div 2"
  shows "calibration_loop (steady_device v) lum t i mn mx cam
     = (None, i + 1, (mn + mx) div 2,
         cam\<lparr>captures := captures cam @ [Some ((mn + mx) div 2)],
               temp_photo := Some (grey_photo v)\<rparr>)"
proof -
  have s: "(mn + mx) div 2 = py_int (real_of_int (mn + mx) / 2)"
    using assms(3) py_int_half_eq [of "mn + mx"] by simp
  have nz: "(mn + mx) div 2 \<noteq> 0" using assms(3) by linarith
  have d: "steady_device v (length (captures cam))
             (if (mn + mx) div 2 \<noteq> 0 then Some ((mn + mx) div 2) else None) = Inr (grey_photo v)"
    by (simp add: steady_device_def)
  note step = calibration_loop_step
    [where dev = "steady_device v" and cam = cam and lum = lum and t = t and i = i,
     OF s d refl refl]
  show ?thesis
    using assms(1,2,4) nz
    by (simp add: step LUMINANCE_grey TARGET_LUMINOSITY_MARGIN_def)
qed

theorem calibration_loop_exit_guard_witness:
  "calibration_loop (steady_device 200) 10 40 18 30000 30011 (new_camera True)
     = calibration_loop (steady_device 200) 10 40 19 30000 30005
         ((new_camera True)\<lparr>captures := [Some 30005], temp_photo := Some (grey_photo 200)\<rparr>) \<and>
   (\<exists>cam'. calibration_loop (steady_device 200) 10 40 19 30000 30005 (new_camera True)
              = (None, 20, 30002, cam') \<and>
            captures cam' = [Some 30002])"
proof -
  have s1: "(30005::int) = py_int (real_of_int (30000 + 30011) / 2)"
   and s2: "(30002::int) = py_int (real_of_int (30000 + 30005) / 2)"
    by (simp_all add: py_int_def)
  have d1: "steady_device 200 (length (captures (new_camera True)))
              (if (30005::int) \<noteq> 0 then Some 30005 else None) = Inr (grey_photo 200)"
   and d2: "steady_device 200 (length (captures (new_camera True)))
              (if (30002::int) \<noteq> 0 then Some 30002 else None) = Inr (grey_photo 200)"
    by (simp_all add: steady_device_def)
  note g1 = calibration_loop_exit_guard
    [where dev = "steady_device 200" and cam = "new_camera True" and luminance = 10
       and target_luminance = 40 and i = 18, OF s1 d1 refl refl refl refl]
  note g2 = calibration_loop_exit_guard
    [where dev = "steady_device 200" and cam = "new_camera True" and luminance = 10
       and target_luminance = 40 and i = 19, OF s2 d2 refl refl refl refl]
  from g1 g2 show ?thesis
    by (simp add: LUMINANCE_grey TARGET_LUMINOSITY_MARGIN_def new_camera_def)
qed

text \<open>
  The loop does go on when \<open>min_speed + 5 = max_speed\<close> at the end of an iteration.
  With a device whose photos are always too bright (luminance 200 for a target of 40),
  the search started on 30000 and 3000000 reaches, after 19 captures, the bounds
  30000 and 30005, for which \<open>min_speed + 5 \<ge> max_speed\<close> holds; it then makes a
  twentieth capture, at 30002.
\<close>

theorem calibration_loop_continues_at_min_plus_5:
  "(30000::int) + 5 \<ge> 30005 \<and>
   calibration_loop (steady_device 200) 10 (TARGET_LUMINANCE 10) 0
       MIN_SHUTTER_SPEED MAX_SHUTTER_SPEED (new_camera True)
     = calibration_loop (steady_device 200) 10 (TARGET_LUMINANCE 10) 19 30000 30005
         ((new_camera True)\<lparr>captures := map Some
            [1515000, 772500, 401250, 215625, 122812, 76406, 53203, 41601, 35800, 32900,
            31450, 30725, 30362, 30181, 30090, 30045, 30022, 30011, 30005],
            temp_photo := Some (grey_photo 200)\<rparr>) \<and>
   calibration_loop (steady_device 200) 10 (TARGET_LUMINANCE 10) 19 30000 30005
         ((new_camera True)\<lparr>captures := map Some
            [1515000, 772500, 401250, 215625, 122812, 76406, 53203, 41601, 35800, 32900,
            31450, 30725, 30362, 30181, 30090, 30045, 30022, 30011, 30005],
            temp_photo := Some (grey_photo 200)\<rparr>)
     = (None, 20, 30002,
        (new_camera True)\<lparr>captures := map Some
            [1515000, 772500, 401250, 215625, 122812, 76406, 53203, 41601, 35800, 32900,
            31450, 30725, 30362, 30181, 30090, 30045, 30022, 30011, 30005, 30002],
            temp_photo := Some (grey_photo 200)\<rparr>)"
proof -
  have t: "TARGET_LUMINANCE 10 = 40"
    by (simp add: TARGET_LUMINANCE_def MINIMUM_DAYLIGHT_LUMINANCE_def)
  show ?thesis
    unfolding t MIN_SHUTTER_SPEED_eq MAX_SHUTTER_SPEED_eq
    by (simp add: steady_device_continue steady_device_stop new_camera_def)
qed

section \<open>Overlay positions\<close>

lemma and_then_Inr [simp]: "and_then (Inr x) f = f x"
  by (simp add: and_then_def)

lemma and_then_Inl [simp]: "and_then (Inl e) f = Inl e"
  by (simp add: and_then_def)

lemma overlay_getattr_present: "self name = Some v \<Longrightarrow> overlay_getattr self name = Inr v"
  by (simp add: overlay_getattr_def)

text \<open>
  Claim C7, as the code has it. For an overlay whose image was rendered,
  \<open>compute_position\<close> returns \<open>x = 0\<close> for \<open>left\<close>, \<open>x = canvas_width - overlay_width\<close>
  for \<open>right\<close>, and for \<open>center\<close> half of \<open>canvas_width - overlay_width\<close> truncated
  toward zero: the floor when the overlay is not wider than the canvas, and the
  negated floor of half the excess when it is wider. It returns \<open>y = border_top\<close> for
  \<open>top\<close> with \<open>over_the_picture\<close> set and \<open>y = 0\<close> for \<open>top\<close> without it,
  \<open>y = canvas_height - overlay_height - border_bottom\<close> for \<open>bottom\<close> with
  \<open>over_the_picture\<close> set and \<open>y = canvas_height - overlay_height\<close> for \<open>bottom\<close>
  without it.
\<close>

theorem compute_position_values:
  assumes "overlay ''rendered_image'' = Some (PImage img)"
      and "overlay ''horizontal_position'' = Some (PStr horizontal)"
      and "overlay ''vertical_position'' = Some (PStr vertical)"
      and "overlay_getattr overlay ''over_the_picture'' = Inr over_the_picture"
  shows "compute_position overlay canvas_width canvas_height border_top border_bottom =
           Inr (if horizontal = ''left'' then 0
                else if horizontal = ''right'' then int canvas_width - int (img_width img)
                else if horizontal = ''center'' then
                  (if img_width img \<le> canvas_width
                   then (int canvas_width - int (img_width img)) div 2
                   else - ((int (img_width img) - int canvas_width) div 2))
                else 0,
                if vertical = ''top'' then (if truthy over_the_picture then int border_top else 0)
                else if vertical = ''bottom'' then
                  (if truthy over_the_picture
                   then int canvas_height - int (img_height img) - int border_bottom
                   else int canvas_height - int (img_height img))
                else 0)"
proof -
  have w: "rendered_image_width overlay = Inr (img_width img)"
    and h: "rendered_image_height overlay = Inr (img_height img)"
    using assms(1)
    by (simp_all add: rendered_image_width_def rendered_image_height_def overlay_getattr_def)
  have c: "py_int (real_of_int (int canvas_width - int (img_width img)) / 2) =
             (if img_width img \<le> canvas_width
              then (int canvas_width - int (img_width img)) div 2
              else - ((int (img_width img) - int canvas_width) div 2))"
    by (simp only: py_int_half_eq) auto
  have hp: "overlay_getattr overlay ''horizontal_position'' = Inr (PStr horizontal)"
    and vp: "overlay_getattr overlay ''vertical_position'' = Inr (PStr vertical)"
    using assms(2,3) by (simp_all add: overlay_getattr_def)
  show ?thesis
    unfolding compute_position_def
    by (simp add: hp vp assms(4) w h c del: of_int_diff of_nat_diff)
qed


theorem compute_position_values_witness:
  "compute_position (rendered_overlay ''bottom'' ''right'' (PBool True) (blank_image 30 12))
     64 68 20 0 = Inr (34, 56) \<and>
   compute_position (rendered_overlay ''top'' ''center'' (PBool False) (blank_image 30 12))
     64 68 20 0 = Inr (17, 0)"
  using compute_position_values
          [of "rendered_overlay ''bottom'' ''right'' (PBool True) (blank_image 30 12)"
              "blank_image 30 12" "''right''" "''bottom''" "PBool True" 64 68 20 0]
        compute_position_values
          [of "rendered_overlay ''top'' ''center'' (PBool False) (blank_image 30 12)"
              "blank_image 30 12" "''center''" "''top''" "PBool False" 64 68 20 0]
  by (simp add: rendered_overlay_def overlay_getattr_def blank_image_def)

text \<open>
  For \<open>center\<close> the result is not the floor when the overlay is wider than the canvas.
  A text overlay that renders 103 pixels wide on a photo 100 pixels wide is pasted at
  \<open>x = - 1\<close>, and the floor of \<open>(100 - 103) / 2\<close> is \<open>- 2\<close>.
\<close>

theorem compute_position_center_not_floor:
  "compute_position (rendered_overlay ''top'' ''center'' (PBool False) (blank_image 103 10))
     100 60 10 0 = Inr (- 1, 0) \<and>
   \<lfloor>(100 - 103) / 2 :: real\<rfloor> = - 2 \<and>
   process_picture (fixed_renderer (blank_image 103 10) (blank_image 1 1))
       (Some (blank_image 100 50)) [(''top_center'', text_slot)] PNone PNone PNone
     = Inr (Some \<lparr>c_width = 100, c_height = 60, c_color = PNone,
                   c_pastes = [(blank_image 100 50, 0, 10), (blank_image 103 10, - 1, 0)]\<rparr>)"
proof (intro conjI)
  show "compute_position (rendered_overlay ''top'' ''center'' (PBool False) (blank_image 103 10))
     100 60 10 0 = Inr (- 1, 0)"
    by (simp add: compute_position_def rendered_overlay_def overlay_getattr_def
          rendered_image_width_def rendered_image_height_def blank_image_def py_int_def)
next
  show "\<lfloor>(100 - 103) / 2 :: real\<rfloor> = - 2"
    by simp
next
  show "process_picture (fixed_renderer (blank_image 103 10) (blank_image 1 1))
       (Some (blank_image 100 50)) [(''top_center'', text_slot)] PNone PNone PNone
     = Inr (Some \<lparr>c_width = 100, c_height = 60, c_color = PNone,
                   c_pastes = [(blank_image 100 50, 0, 10), (blank_image 103 10, - 1, 0)]\<rparr>)"
    by (simp add: process_picture_def Overlay_init_def position_information_def find_type_def lower_def lower_char_def Let_def
          text_slot_def fixed_renderer_def create_text_overlay_def overlay_getattr_def
          border_step_def rendered_image_height_def rendered_image_width_def paste_step_def
          compute_position_def paste_def blank_image_def overlay_defaults_def py_int_def)
qed

section \<open>The canvas\<close>

lemma spec_border_Nil [simp]: "spec_border edge [] = 0"
  by (simp add: spec_border_def)

lemma Max_zero_Cons: "Max (set (0 # x # xs)) = max (x::nat) (Max (set (0 # xs)))"
proof -
  have "Max (insert x (set (0 # xs))) = max x (Max (set (0 # xs)))"
    by (rule Max.insert) simp_all
  moreover have "set (0 # x # xs) = insert x (set (0 # xs))" by auto
  ultimately show ?thesis by (simp only:)
qed

lemma spec_border_Cons:
  "spec_border edge (overlay # rest) =
     (if anchored edge overlay \<and> \<not> over_the_picture_flag overlay
      then max (rendered_height overlay) (spec_border edge rest)
      else spec_border edge rest)"
proof (cases "anchored edge overlay \<and> \<not> over_the_picture_flag overlay")
  case True
  then have "spec_border edge (overlay # rest) =
      Max (set (0 # rendered_height overlay # map rendered_height
        (filter (\<lambda>overlay. anchored edge overlay \<and> \<not> over_the_picture_flag overlay) rest)))"
    by (simp add: spec_border_def)
  also have "\<dots> = max (rendered_height overlay) (spec_border edge rest)"
    by (simp only: Max_zero_Cons spec_border_def)
  finally show ?thesis using True by simp
next
  case False
  then show ?thesis by (auto simp: spec_border_def)
qed

lemma position_information_Inr:
  assumes "position_information position = Inr (v, h)"
  shows "split_on CHR ''_'' (lower position) = [v, h] \<and>
         (v = ''top'' \<or> v = ''bottom'') \<and>
         (h = ''left'' \<or> h = ''center'' \<or> h = ''right'')"
  using assms unfolding position_information_def
  by (simp split: list.splits if_splits)

lemma find_type_other_attributes:
  assumes "find_type env data self pw ph = Inr overlay"
      and "name \<noteq> ''type''" "name \<noteq> ''rendered_image''" "name \<noteq> ''defaults''"
  shows "overlay name = self name"
proof (cases "\<exists>t. data ''type'' = Some (PStr t) \<and> t \<noteq> []")
  case False
  then have "find_type env data self pw ph = Inr self"
    unfolding find_type_def by (simp split: option.split pyval.split)
  with assms(1) show ?thesis by simp
next
  case True
  then obtain t where t: "data ''type'' = Some (PStr t)" "t \<noteq> []" by blast
  from assms t show ?thesis
    unfolding find_type_def Let_def
    by (auto split: if_splits sum.splits)
qed

lemma Overlay_init_vertical:
  assumes "Overlay_init env position data pw ph df tf = Inr overlay"
  shows "overlay ''vertical_position'' = Some (PStr ''top'') \<or>
         overlay ''vertical_position'' = Some (PStr ''bottom'')"
proof -
  from assms obtain v h where
    p: "position_information position = Inr (v, h)" and
    f: "find_type env data
          (data(''date_format'' \<mapsto> (if truthy df then df else PStr ''%d %B %Y''),
                ''time_format'' \<mapsto> (if truthy tf then tf else PStr ''%H:%M''),
                ''vertical_position'' \<mapsto> PStr v,
                ''horizontal_position'' \<mapsto> PStr h)) pw ph = Inr overlay"
    unfolding Overlay_init_def Let_def by (auto split: sum.splits)
  have "overlay ''vertical_position'' = Some (PStr v)"
    by (subst find_type_other_attributes [OF f]) simp_all
  with position_information_Inr [OF p] show ?thesis by auto
qed

lemma create_overlays_anchored:
  "overlay \<in> set (create_overlays env slots pw ph df tf) \<Longrightarrow>
   anchored ''top'' overlay \<or> anchored ''bottom'' overlay"
proof (induction slots)
  case Nil
  then show ?case by simp
next
  case (Cons slot slots)
  obtain position data where slot: "slot = (position, data)" by (cases slot)
  show ?case
  proof (cases "overlay \<in> set (create_overlays env slots pw ph df tf)")
    case True
    then show ?thesis by (rule Cons.IH)
  next
    case False
    with Cons.prems have "Overlay_init env position data pw ph df tf = Inr overlay"
      by (auto simp: slot and_then_def split: sum.splits if_splits)
    from Overlay_init_vertical [OF this] show ?thesis
      by (auto simp: anchored_def overlay_getattr_def)
  qed
qed

lemma border_step_spec:
  assumes "border_step overlay bt bb = Inr (bt', bb')"
      and "anchored ''top'' overlay \<or> anchored ''bottom'' overlay"
  shows "bt' = (if anchored ''top'' overlay \<and> \<not> over_the_picture_flag overlay
                then max bt (rendered_height overlay) else bt) \<and>
         bb' = (if anchored ''bottom'' overlay \<and> \<not> over_the_picture_flag overlay
                then max bb (rendered_height overlay) else bb)"
  using assms
  by (auto simp: border_step_def and_then_def anchored_def over_the_picture_flag_def
                 rendered_height_def rendered_image_height_def
           split: sum.splits if_splits pyval.splits)

lemma compute_borders_spec:
  "compute_borders rendered bt bb = Inr (bt', bb') \<Longrightarrow>
   \<forall>overlay \<in> set rendered. anchored ''top'' overlay \<or> anchored ''bottom'' overlay \<Longrightarrow>
   bt' = max bt (spec_border ''top'' rendered) \<and> bb' = max bb (spec_border ''bottom'' rendered)"
proof (induction rendered arbitrary: bt bb)
  case Nil
  then show ?case by simp
next
  case (Cons overlay rendered)
  from Cons.prems(1) obtain bt1 bb1 where
    step: "border_step overlay bt bb = Inr (bt1, bb1)" and
    rest: "compute_borders rendered bt1 bb1 = Inr (bt', bb')"
    by (auto split: sum.splits)
  from Cons.prems(2) have a: "anchored ''top'' overlay \<or> anchored ''bottom'' overlay"
    and b: "\<forall>overlay \<in> set rendered. anchored ''top'' overlay \<or> anchored ''bottom'' overlay"
    by simp_all
  from Cons.IH [OF rest b] border_step_spec [OF step a]
  show ?case
    by (simp add: spec_border_Cons max.assoc)
qed

lemma paste_step_shape:
  assumes "paste_step overlay cv bt bb = Inr cv'"
  shows "c_width cv' = c_width cv \<and> c_height cv' = c_height cv \<and> c_color cv' = c_color cv \<and>
         (\<exists>more. c_pastes cv' = c_pastes cv @ more)"
  using assms
  by (auto simp: paste_step_def paste_def and_then_def
           split: sum.splits if_splits pyval.splits)

lemma paste_overlays_shape:
  "paste_overlays rendered cv bt bb = Inr cv' \<Longrightarrow>
   c_width cv' = c_width cv \<and> c_height cv' = c_height cv \<and> c_color cv' = c_color cv \<and>
   (\<exists>more. c_pastes cv' = c_pastes cv @ more)"
proof (induction rendered arbitrary: cv)
  case Nil
  then show ?case by simp
next
  case (Cons overlay rendered)
  from Cons.prems obtain cv1 where
    step: "paste_step overlay cv bt bb = Inr cv1" and
    rest: "paste_overlays rendered cv1 bt bb = Inr cv'"
    by (auto split: sum.splits)
  from Cons.IH [OF rest] paste_step_shape [OF step]
  show ?case by auto
qed

text \<open>
  Claim C8. Whenever \<open>process_picture\<close> produces a canvas, the canvas is as wide as the
  photo and as high as the photo plus the top and the bottom border, where each border
  is the largest rendered height among the rendered overlays anchored to that edge
  whose \<open>over_the_picture\<close> is false, and 0 when there is none (\<open>spec_border\<close>). So the
  canvas is at least as high as the photo. The first thing pasted on the canvas is the
  photo, at \<open>(0, border_top)\<close>.
\<close>

theorem process_picture_canvas:
  assumes "process_picture env (Some photo) overlays date_format time_format background_color
             = Inr (Some canvas)"
      and "rendered_overlays = create_overlays env overlays (img_width photo) (img_height photo)
             date_format time_format"
      and "border_top = spec_border ''top'' rendered_overlays"
      and "border_bottom = spec_border ''bottom'' rendered_overlays"
  shows "c_width canvas = img_width photo \<and>
         c_height canvas = img_height photo + border_top + border_bottom \<and>
         img_height photo \<le> c_height canvas \<and>
         c_pastes canvas \<noteq> [] \<and>
         hd (c_pastes canvas) = (photo, 0, int border_top)"
proof -
  from assms(1) obtain bt bb where
    borders: "compute_borders rendered_overlays 0 0 = Inr (bt, bb)" and
    pasted: "paste_overlays rendered_overlays
               \<lparr>c_width = img_width photo, c_height = img_height photo + bt + bb,
                c_color = background_color, c_pastes = [(photo, 0, int bt)]\<rparr> bt bb
             = Inr canvas"
    by (auto simp: process_picture_def Let_def and_then_def assms(2) split: sum.splits)
  have "\<forall>overlay \<in> set rendered_overlays. anchored ''top'' overlay \<or> anchored ''bottom'' overlay"
    unfolding assms(2) using create_overlays_anchored by blast
  from compute_borders_spec [OF borders this]
  have bt: "bt = border_top" and bb: "bb = border_bottom"
    by (simp_all add: assms(3,4))
  from paste_overlays_shape [OF pasted] show ?thesis
    by (auto simp: bt bb)
qed

theorem process_picture_canvas_witness:
  "process_picture (fixed_renderer (blank_image 40 20) (blank_image 30 12))
       (Some (blank_image 64 48)) [(''top_left'', text_slot), (''bottom_right'', image_slot)]
       PNone PNone PNone
     = Inr (Some \<lparr>c_width = 64, c_height = 68, c_color = PNone,
                   c_pastes = [(blank_image 64 48, 0, 20), (blank_image 40 20, 0, 0),
                               (blank_image 30 12, 34, 56)]\<rparr>) \<and>
   spec_border ''top''
       (create_overlays (fixed_renderer (blank_image 40 20) (blank_image 30 12))
          [(''top_left'', text_slot), (''bottom_right'', image_slot)] 64 48 PNone PNone) = 20 \<and>
   spec_border ''bottom''
       (create_overlays (fixed_renderer (blank_image 40 20) (blank_image 30 12))
          [(''top_left'', text_slot), (''bottom_right'', image_slot)] 64 48 PNone PNone) = 0"
proof -
  have ev: "process_picture (fixed_renderer (blank_image 40 20) (blank_image 30 12))
       (Some (blank_image 64 48)) [(''top_left'', text_slot), (''bottom_right'', image_slot)]
       PNone PNone PNone
     = Inr (Some \<lparr>c_width = 64, c_height = 68, c_color = PNone,
                   c_pastes = [(blank_image 64 48, 0, 20), (blank_image 40 20, 0, 0),
                               (blank_image 30 12, 34, 56)]\<rparr>)"
    by (simp add: process_picture_def Overlay_init_def position_information_def find_type_def lower_def lower_char_def Let_def
          text_slot_def image_slot_def fixed_renderer_def create_text_overlay_def
          create_image_overlay_def overlay_getattr_def
          border_step_def rendered_image_height_def rendered_image_width_def paste_step_def
          compute_position_def paste_def blank_image_def overlay_defaults_def py_int_def)
  have sb: "spec_border ''bottom''
       (create_overlays (fixed_renderer (blank_image 40 20) (blank_image 30 12))
          [(''top_left'', text_slot), (''bottom_right'', image_slot)] 64 48 PNone PNone) = 0"
    by (simp add: spec_border_def anchored_def over_the_picture_flag_def rendered_height_def
          Overlay_init_def position_information_def find_type_def lower_def lower_char_def Let_def
          text_slot_def image_slot_def fixed_renderer_def create_text_overlay_def
          create_image_overlay_def overlay_getattr_def blank_image_def overlay_defaults_def)
  from process_picture_canvas [OF ev, OF _ refl refl] sb ev
  show ?thesis
    by (simp add: blank_image_def)
qed

section \<open>Slots that are dropped\<close>

lemma create_overlays_append:
  "create_overlays env (xs @ ys) pw ph df tf
     = create_overlays env xs pw ph df tf @ create_overlays env ys pw ph df tf"
  by (induction xs) (auto split: sum.splits)

lemma process_picture_skipped_slot:
  assumes "create_overlays env [(position, data)] (img_width photo) (img_height photo)
             date_format time_format = []"
  shows "process_picture env (Some photo) (before @ (position, data) # after)
           date_format time_format background_color
         = process_picture env (Some photo) (before @ after)
           date_format time_format background_color"
proof -
  have "create_overlays env (before @ [(position, data)] @ after) (img_width photo)
          (img_height photo) date_format time_format
        = create_overlays env (before @ after) (img_width photo) (img_height photo)
            date_format time_format"
    by (simp only: create_overlays_append assms append_Nil)
  then show ?thesis
    by (simp add: process_picture_def)
qed

lemma split_on_not_Nil: "split_on c s \<noteq> []"
  by (induction s) (auto split: list.splits)

lemma split_on_two: "split_on c s = [v, h] \<Longrightarrow> s = v @ c # h"
proof (induction s arbitrary: v)
  case Nil
  then show ?case by simp
next
  case (Cons x xs)
  show ?case
  proof (cases "x = c")
    case True
    with Cons.prems have v: "v = []" and r: "split_on c xs = [h]" by simp_all
    from r have "xs = h"
    proof (induction xs arbitrary: h)
      case Nil
      then show ?case by simp
    next
      case (Cons y ys)
      then show ?case
        by (auto split: if_splits list.splits simp: split_on_not_Nil)
    qed
    with v True show ?thesis by simp
  next
    case False
    with Cons.prems obtain w where w: "split_on c xs = [w, h]" and v: "v = x # w"
      by (auto split: list.splits)
    from Cons.IH [OF w] v show ?thesis by simp
  qed
qed

lemma position_information_malformed:
  assumes "\<not> well_formed_position position"
  shows "position_information position = Inl TypeError"
proof (cases "position_information position")
  case (Inl e)
  then show ?thesis
    unfolding position_information_def by (simp split: list.splits if_splits)
next
  case (Inr vh)
  obtain v h where vh: "vh = (v, h)" by (cases vh)
  from position_information_Inr [OF Inr [unfolded vh]]
  have sp: "split_on CHR ''_'' (lower position) = [v, h]"
    and v: "v = ''top'' \<or> v = ''bottom''"
    and h: "h = ''left'' \<or> h = ''center'' \<or> h = ''right''"
    by simp_all
  from split_on_two [OF sp] have lp: "lower position = v @ CHR ''_'' # h" .
  from v h have "well_formed_position position"
    unfolding well_formed_position_def lp by (elim disjE) simp_all
  with assms show ?thesis by simp
qed

lemma malformed_position_skipped:
  assumes "\<not> well_formed_position position"
  shows "create_overlays env [(position, data)] pw ph df tf = []"
  by (simp add: Overlay_init_def position_information_malformed [OF assms])

lemma unrecognized_type_skipped:
  assumes "data ''type'' = Some (PStr t)" "t \<noteq> []" "t \<noteq> ''text''" "t \<noteq> ''image''"
  shows "create_overlays env [(position, data)] pw ph df tf = []"
proof (cases "position_information position")
  case (Inl e)
  then show ?thesis by (simp add: Overlay_init_def)
next
  case (Inr vh)
  obtain v h where vh: "vh = (v, h)" by (cases vh)
  show ?thesis
    using assms
    by (simp add: Overlay_init_def Inr vh find_type_def Let_def overlay_getattr_def)
qed

lemma missing_type_skipped:
  assumes "\<not> (\<exists>t. data ''type'' = Some (PStr t) \<and> t \<noteq> [])"
      and "data ''rendered_image'' = None" "data ''defaults'' = None"
  shows "create_overlays env [(position, data)] pw ph df tf = []"
proof (cases "position_information position")
  case (Inl e)
  then show ?thesis by (simp add: Overlay_init_def)
next
  case (Inr vh)
  obtain v h where vh: "vh = (v, h)" by (cases vh)
  have ft: "find_type env data self pw ph = Inr self" for self
    using assms(1) unfolding find_type_def by (simp split: option.split pyval.split)
  show ?thesis
    using assms(2,3)
    by (simp add: Overlay_init_def Inr vh ft Let_def overlay_getattr_def)
qed

text \<open>
  A slot is dropped, and \<open>process_picture\<close> does what it does
  without the slot, when its position label is malformed, when its type is a string
  other than \<open>text\<close> and \<open>image\<close>, and when its type is missing, empty or not a string
  and its data has no entry called \<open>rendered_image\<close> or \<open>defaults\<close>.
\<close>

lemma bad_slot_dropped:
  assumes "\<not> well_formed_position position \<or>
           (\<exists>t. data ''type'' = Some (PStr t) \<and> t \<noteq> [] \<and> t \<noteq> ''text'' \<and> t \<noteq> ''image'') \<or>
           (\<not> (\<exists>t. data ''type'' = Some (PStr t) \<and> t \<noteq> []) \<and>
            data ''rendered_image'' = None \<and> data ''defaults'' = None)"
  shows "process_picture env (Some photo) (before @ (position, data) # after)
           date_format time_format background_color
         = process_picture env (Some photo) (before @ after)
           date_format time_format background_color"
proof -
  have "create_overlays env [(position, data)] (img_width photo) (img_height photo)
          date_format time_format = []"
    using assms
  proof (elim disjE exE conjE)
    assume "\<not> well_formed_position position"
    then show ?thesis by (rule malformed_position_skipped)
  next
    fix t
    assume "data ''type'' = Some (PStr t)" "t \<noteq> []" "t \<noteq> ''text''" "t \<noteq> ''image''"
    then show ?thesis by (rule unrecognized_type_skipped)
  next
    assume "\<not> (\<exists>t. data ''type'' = Some (PStr t) \<and> t \<noteq> [])"
           "data ''rendered_image'' = None" "data ''defaults'' = None"
    then show ?thesis by (rule missing_type_skipped)
  qed
  then show ?thesis by (rule process_picture_skipped_slot)
qed

text \<open>
  Claim C9 says that a slot whose type is missing contributes no rendered overlay and
  does not abort the processing of the others. A slot \<open>top_left\<close> whose data is
  \<^verbatim>\<open>{"rendered_image": "x"}\<close> names no type. The constructor has copied the entry
  into the object before it returns early, so the object passes the test
  \<^verbatim>\<open>if overlay.rendered_image\<close> and is kept; the border loop then reads its
  \<^verbatim>\<open>over_the_picture\<close>, which goes to \<^verbatim>\<open>__getattr__\<close> and from there to the
  missing \<^verbatim>\<open>defaults\<close>, and \<open>RecursionError\<close> leaves \<open>process_picture\<close>. Without
  the slot the same call produces a canvas.
\<close>

theorem untyped_slot_aborts_process_picture:
  "process_picture (fixed_renderer (blank_image 40 20) (blank_image 30 12))
       (Some (blank_image 64 48)) [(''top_left'', untyped_slot)] PNone PNone PNone
     = Inl RecursionError \<and>
   process_picture (fixed_renderer (blank_image 40 20) (blank_image 30 12))
       (Some (blank_image 64 48)) [] PNone PNone PNone
     = Inr (Some \<lparr>c_width = 64, c_height = 48, c_color = PNone,
                   c_pastes = [(blank_image 64 48, 0, 0)]\<rparr>)"
  by (simp add: process_picture_def Overlay_init_def position_information_def find_type_def
        lower_def lower_char_def Let_def untyped_slot_def overlay_getattr_def
        border_step_def blank_image_def)

end
